theory Spec2Isabelle
  imports Complex_Main "HOL-Library.Word"
begin

unbundle bit_operations_syntax

section \<open>Rounding to a double\<close>

text \<open>
  A finite IEEE 754 binary64 value is the rational number it denotes. An arithmetic
  operation of JavaScript computes the exact result and rounds it to the nearest double,
  ties to even: 53 significant bits in the normal range, steps of \<open>2 ^ -1074\<close> below
  \<open>2 ^ -1022\<close>, an infinity from \<open>2 ^ 1024\<close> on.

  \<open>exponent x\<close> is the \<open>e\<close> with \<open>2 ^ e \<le> \<bar>x\<bar> < 2 ^ (e + 1)\<close>.
\<close>

function exponent_up :: "rat \<Rightarrow> int" where
  "exponent_up x = (if 2 \<le> x then exponent_up (x / 2) + 1 else 0)"
  by pat_completeness auto
termination
proof (relation "measure (\<lambda>x. nat \<lfloor>x\<rfloor>)")
  show "wf (measure (\<lambda>x::rat. nat \<lfloor>x\<rfloor>))" by simp
next
  fix x :: rat
  assume x: "2 \<le> x"
  have "\<lfloor>x / 2\<rfloor> < \<lfloor>x\<rfloor>"
  proof -
    have "x / 2 \<le> x - 1" using x by simp
    then have "\<lfloor>x / 2\<rfloor> \<le> \<lfloor>x - 1\<rfloor>" by (rule floor_mono)
    then show ?thesis by simp
  qed
  moreover have "0 < \<lfloor>x\<rfloor>" using x by simp
  ultimately show "(x / 2, x) \<in> measure (\<lambda>x. nat \<lfloor>x\<rfloor>)" by simp
qed

function exponent_down :: "rat \<Rightarrow> int" where
  "exponent_down x = (if 0 < x \<and> x < 1 then exponent_down (2 * x) - 1 else 0)"
  by pat_completeness auto
termination
proof (relation "measure (\<lambda>x. nat \<lfloor>1 / x\<rfloor>)")
  show "wf (measure (\<lambda>x::rat. nat \<lfloor>1 / x\<rfloor>))" by simp
next
  fix x :: rat
  assume x: "0 < x \<and> x < 1"
  then have y: "1 \<le> 1 / x" by simp
  have "1 / (2 * x) = (1 / x) / 2" by simp
  moreover have "\<lfloor>(1 / x) / 2\<rfloor> < \<lfloor>1 / x\<rfloor>"
  proof (cases "2 \<le> 1 / x")
    case True
    then have "(1 / x) / 2 \<le> 1 / x - 1" by simp
    then have "\<lfloor>(1 / x) / 2\<rfloor> \<le> \<lfloor>1 / x - 1\<rfloor>" by (rule floor_mono)
    then show ?thesis by simp
  next
    case False
    then have "(1 / x) / 2 < 1" by simp
    moreover have "0 \<le> (1 / x) / 2" using x by simp
    ultimately have "\<lfloor>(1 / x) / 2\<rfloor> = 0" by (simp add: floor_eq_iff)
    moreover have "1 \<le> \<lfloor>1 / x\<rfloor>" using y by (simp add: le_floor_iff)
    ultimately show ?thesis by simp
  qed
  moreover have "0 < \<lfloor>1 / x\<rfloor>" using y by (simp add: floor_less_iff less_floor_iff)
  ultimately show "(2 * x, x) \<in> measure (\<lambda>x. nat \<lfloor>1 / x\<rfloor>)" by (simp add: ac_simps)
qed

declare exponent_up.simps [simp del] exponent_down.simps [simp del]

definition exponent :: "rat \<Rightarrow> int" where
  "exponent x = (if 1 \<le> \<bar>x\<bar> then exponent_up \<bar>x\<bar> else exponent_down \<bar>x\<bar>)"

definition round_half_even :: "rat \<Rightarrow> int" where
  "round_half_even r =
     (let f = \<lfloor>r\<rfloor>; d = r - of_int f
      in if d < 1 / 2 then f else if 1 / 2 < d then f + 1 else if even f then f else f + 1)"

text \<open>The nearest value with 53 significant bits, the exponent not bounded.\<close>

definition to_double :: "rat \<Rightarrow> rat" where
  "to_double x =
     (if x = 0 then 0
      else let ulp = 2 powi (exponent x - 52) in of_int (round_half_even (x / ulp)) * ulp)"

section \<open>JavaScript values used by the TOTP engine\<close>

text \<open>
  The engine exists twice in the repository: \<open>utils.ts\<close> (HMAC-SHA-1, with argument
  validation and a bound check before truncation) and \<open>index.ts\<close> (HMAC-SHA-256, without
  them). Both are embedded; a definition is prefixed with the file it comes from.

  A JavaScript \<open>number\<close> is a finite double \<open>Fin x\<close> of value \<open>x\<close>, or one of \<open>NaN\<close>,
  \<open>Infinity\<close> and \<open>-Infinity\<close>. The sign of a zero is not kept: in the engine it could
  only decide the sign of an infinite quotient, and the engine reads a step through
  \<open>isNaN\<close>, \<open>&\<close> and \<open>>>>\<close> alone, for which both infinities are alike. \<open>Num n\<close> is the
  number of integer value \<open>n\<close>.
\<close>

datatype number = Fin rat | NaN | Infinity | NegInfinity

definition Num :: "int \<Rightarrow> number" where
  "Num n = Fin (of_int n)"

type_synonym byte = "8 word"

definition signed_infinity :: "rat \<Rightarrow> number" where
  "signed_infinity s = (if s = 0 then NaN else if 0 < s then Infinity else NegInfinity)"

text \<open>The double that an exact result \<open>x\<close> is rounded to.\<close>

definition js_round :: "rat \<Rightarrow> number" where
  "js_round x =
     (if \<bar>x\<bar> < 2 powi (- 1022)
      then Fin (of_int (round_half_even (x / 2 powi (- 1074))) * 2 powi (- 1074))
      else if 2 ^ 1024 \<le> \<bar>to_double x\<bar> then signed_infinity x
      else Fin (to_double x))"

fun js_neg :: "number \<Rightarrow> number" where
  "js_neg (Fin x) = Fin (- x)"
| "js_neg NaN = NaN"
| "js_neg Infinity = NegInfinity"
| "js_neg NegInfinity = Infinity"

fun js_add :: "number \<Rightarrow> number \<Rightarrow> number" where
  "js_add (Fin a) (Fin b) = js_round (a + b)"
| "js_add (Fin a) Infinity = Infinity"
| "js_add (Fin a) NegInfinity = NegInfinity"
| "js_add Infinity (Fin b) = Infinity"
| "js_add NegInfinity (Fin b) = NegInfinity"
| "js_add Infinity Infinity = Infinity"
| "js_add Infinity NegInfinity = NaN"
| "js_add NegInfinity Infinity = NaN"
| "js_add NegInfinity NegInfinity = NegInfinity"
| "js_add NaN _ = NaN"
| "js_add _ NaN = NaN"

text \<open>An infinity times zero is \<open>NaN\<close>; otherwise the signs multiply.\<close>

fun js_mul :: "number \<Rightarrow> number \<Rightarrow> number" where
  "js_mul (Fin a) (Fin b) = js_round (a * b)"
| "js_mul (Fin a) Infinity = signed_infinity a"
| "js_mul (Fin a) NegInfinity = signed_infinity (- a)"
| "js_mul Infinity (Fin b) = signed_infinity b"
| "js_mul NegInfinity (Fin b) = signed_infinity (- b)"
| "js_mul Infinity Infinity = Infinity"
| "js_mul Infinity NegInfinity = NegInfinity"
| "js_mul NegInfinity Infinity = NegInfinity"
| "js_mul NegInfinity NegInfinity = Infinity"
| "js_mul NaN _ = NaN"
| "js_mul _ NaN = NaN"

text \<open>
  \<open>x / y\<close>: a finite value divided by zero is an infinity of the dividend's sign, \<open>0 / 0\<close>
  is \<open>NaN\<close>, a finite value divided by an infinity is zero.
\<close>

fun js_div :: "number \<Rightarrow> number \<Rightarrow> number" where
  "js_div (Fin a) (Fin b) = (if b = 0 then signed_infinity a else js_round (a / b))"
| "js_div (Fin a) Infinity = Fin 0"
| "js_div (Fin a) NegInfinity = Fin 0"
| "js_div Infinity (Fin b) = (if b < 0 then NegInfinity else Infinity)"
| "js_div NegInfinity (Fin b) = (if b < 0 then Infinity else NegInfinity)"
| "js_div Infinity Infinity = NaN"
| "js_div Infinity NegInfinity = NaN"
| "js_div NegInfinity Infinity = NaN"
| "js_div NegInfinity NegInfinity = NaN"
| "js_div NaN _ = NaN"
| "js_div _ NaN = NaN"

text \<open>\<open>Math.floor(x)\<close>\<close>

fun js_floor :: "number \<Rightarrow> number" where
  "js_floor (Fin x) = Fin (of_int \<lfloor>x\<rfloor>)"
| "js_floor NaN = NaN"
| "js_floor Infinity = Infinity"
| "js_floor NegInfinity = NegInfinity"

text \<open>\<open>Math.floor(x / y)\<close>, the form of every division in the engine.\<close>

definition floor_div :: "number \<Rightarrow> number \<Rightarrow> number" where
  "floor_div x y = js_floor (js_div x y)"

text \<open>\<open>x <= y\<close>: false as soon as one side is \<open>NaN\<close>.\<close>

fun js_le :: "number \<Rightarrow> number \<Rightarrow> bool" where
  "js_le (Fin a) (Fin b) = (a \<le> b)"
| "js_le (Fin a) Infinity = True"
| "js_le (Fin a) NegInfinity = False"
| "js_le Infinity (Fin b) = False"
| "js_le NegInfinity (Fin b) = True"
| "js_le Infinity Infinity = True"
| "js_le Infinity NegInfinity = False"
| "js_le NegInfinity Infinity = True"
| "js_le NegInfinity NegInfinity = True"
| "js_le NaN _ = False"
| "js_le _ NaN = False"

definition isNaN :: "number \<Rightarrow> bool" where
  "isNaN x = (x = NaN)"

text \<open>
  \<open>ToInt32\<close> and \<open>ToUint32\<close> drop the fraction (towards zero) and produce the same 32
  bits (the value modulo \<open>2 ^ 32\<close>; zero for \<open>NaN\<close> and the infinities); they differ in
  how the bits are read back.
\<close>

definition trunc :: "rat \<Rightarrow> int" where
  "trunc x = (if x < 0 then \<lceil>x\<rceil> else \<lfloor>x\<rfloor>)"

fun ToUint32 :: "number \<Rightarrow> 32 word" where
  "ToUint32 (Fin x) = word_of_int (trunc x)"
| "ToUint32 _ = 0"

text \<open>\<open>x & m\<close>: both operands through \<open>ToInt32\<close>, the result a signed 32-bit value.\<close>

definition js_and :: "number \<Rightarrow> number \<Rightarrow> number" where
  "js_and x m = Num (sint (ToUint32 x AND ToUint32 m))"

text \<open>\<open>x >>> k\<close>: the operand through \<open>ToUint32\<close>, the result an unsigned 32-bit value.\<close>

definition js_ushr :: "number \<Rightarrow> nat \<Rightarrow> number" where
  "js_ushr x k = Num (uint (drop_bit k (ToUint32 x)))"

text \<open>Storing a number into a \<open>Uint8Array\<close> element keeps its low eight bits.\<close>

fun ToUint8 :: "number \<Rightarrow> byte" where
  "ToUint8 (Fin x) = word_of_int (trunc x)"
| "ToUint8 _ = 0"

text \<open>
  Reading \<open>a[i]\<close> from a \<open>Uint8Array\<close>: \<open>undefined\<close> (here \<open>None\<close>) outside the array,
  also at index \<open>-1\<close>; a bitwise operator reads \<open>undefined\<close> as \<open>0\<close>.
\<close>

definition js_at :: "byte list \<Rightarrow> int \<Rightarrow> byte option" where
  "js_at a i = (if 0 \<le> i \<and> i < int (length a) then Some (a ! nat i) else None)"

fun int32_of :: "byte option \<Rightarrow> 32 word" where
  "int32_of None = 0"
| "int32_of (Some b) = ucast b"

subsection \<open>Decimal strings\<close>

definition digit_char :: "nat \<Rightarrow> char" where
  "digit_char d = ''0123456789'' ! d"

text \<open>\<open>n.toString()\<close> for a non-negative integer.\<close>

function toString :: "nat \<Rightarrow> string" where
  "toString n = (if n < 10 then [digit_char n] else toString (n div 10) @ [digit_char (n mod 10)])"
  by pat_completeness auto
termination
  by (relation "measure id") auto

declare toString.simps [simp del]

text \<open>
  \<open>s.padStart(n, c)\<close> with a one-character pad string. The \<open>RangeError\<close> for a target
  beyond the engine's string length is raised where the generators call it
  (\<open>otp_padded\<close> below).
\<close>

definition padStart :: "string \<Rightarrow> nat \<Rightarrow> char \<Rightarrow> string" where
  "padStart s n c = replicate (n - length s) c @ s"

section \<open>Collaborators and errors\<close>

text \<open>
  The base32 codec (npm package \<open>base32-decode\<close>) and the platform's WebCrypto HMAC are
  not part of the repository: they are parameters. \<open>None\<close> stands for a thrown exception.
  \<open>subtle_hmac\<close> is \<open>crypto.subtle.importKey\<close> followed by \<open>crypto.subtle.sign\<close>, applied
  to the hash name, the key and the data. \<open>max_string_length\<close> is the longest string the
  engine builds (\<open>2 ^ 29 - 24\<close> characters in V8): \<open>padStart\<close> to a longer target throws a
  \<open>RangeError\<close>.
\<close>

record platform =
  base32Decode :: "string \<Rightarrow> string \<Rightarrow> byte list option"
  subtle_hmac :: "string \<Rightarrow> byte list \<Rightarrow> byte list \<Rightarrow> byte list option"
  max_string_length :: nat

datatype error =
    InvalidSecret
  | InvalidPeriod
  | InvalidDigits
  | InvalidOTP
  | InvalidTimeStep
  | Base32DecodeFailed
  | FailedToGenerateHMAC string
  | HMACArrayTooSmall
  | InvalidStringLength
  | FailedToGenerateTOTP

definition generateHMAC :: "platform \<Rightarrow> byte list \<Rightarrow> byte list \<Rightarrow> string \<Rightarrow> error + byte list" where
  "generateHMAC P data key algorithm =
     (case subtle_hmac P algorithm key data of
        None \<Rightarrow> Inl (FailedToGenerateHMAC algorithm)
      | Some signature \<Rightarrow> Inr signature)"

definition hmacSha1 :: "platform \<Rightarrow> byte list \<Rightarrow> byte list \<Rightarrow> error + byte list" where
  "hmacSha1 P key data = generateHMAC P data key ''SHA-1''"

definition hmacSha256 :: "platform \<Rightarrow> byte list \<Rightarrow> byte list \<Rightarrow> error + byte list" where
  "hmacSha256 P key data = generateHMAC P data key ''SHA-256''"

section \<open>The blocks shared by all four generators\<close>

text \<open>
  The counter loop, identical in \<open>generateTOTP\<close> and \<open>generateTOTPWithT\<close> of both files:
  \<^verbatim>\<open>for (let i = 7; i >= 0; i--) { TBytes[i] = tempT & 0xFF; tempT = tempT >>> 8; }\<close>
\<close>

definition TBytes_step :: "byte list \<times> number \<Rightarrow> nat \<Rightarrow> byte list \<times> number" where
  "TBytes_step st i = (case st of (bs, tempT) \<Rightarrow>
     (bs[i := ToUint8 (js_and tempT (Num 255))], js_ushr tempT 8))"

definition TBytes :: "number \<Rightarrow> byte list" where
  "TBytes T = fst (foldl TBytes_step (replicate 8 0, T) (rev [0..<8]))"

text \<open>\<open>hmacArray[hmacArray.length - 1] & 0x0F\<close>\<close>

definition offset_of :: "byte list \<Rightarrow> nat" where
  "offset_of hmacArray =
     unat (int32_of (js_at hmacArray (int (length hmacArray) - 1)) AND 15)"

text \<open>
  \<^verbatim>\<open>for (let i = 0; i < 4; i++) { truncated = (truncated << 8) | hmacArray[offset + i]; }\<close>
  on 32-bit integers.
\<close>

definition truncate_step :: "byte list \<Rightarrow> nat \<Rightarrow> 32 word \<Rightarrow> nat \<Rightarrow> 32 word" where
  "truncate_step hmacArray offset truncated i =
     push_bit 8 truncated OR int32_of (js_at hmacArray (int (offset + i)))"

definition truncate_loop :: "byte list \<Rightarrow> nat \<Rightarrow> 32 word" where
  "truncate_loop hmacArray offset = foldl (truncate_step hmacArray offset) 0 [0..<4]"

text \<open>
  \<open>(truncated & 0x7FFFFFFF) % (10 ** digits)\<close> for a non-negative integer \<open>digits\<close>. The
  mask clears bit 31, so the signed 32-bit result is its unsigned reading; the remainder
  of a non-negative dividend is \<open>mod\<close>. From \<open>digits = 10\<close> on the power exceeds every
  31-bit dividend, also where the double is rounded or infinite, and the remainder is
  the dividend, as it is with the exact power.
\<close>

definition otp_of :: "32 word \<Rightarrow> nat \<Rightarrow> nat" where
  "otp_of truncated digits = unat (truncated AND 0x7FFFFFFF) mod 10 ^ digits"

text \<open>\<open>otp.toString().padStart(digits, '0')\<close>, the string and the call that may throw.\<close>

definition otp_string :: "32 word \<Rightarrow> nat \<Rightarrow> string" where
  "otp_string truncated digits = padStart (toString (otp_of truncated digits)) digits CHR ''0''"

definition otp_padded :: "platform \<Rightarrow> 32 word \<Rightarrow> nat \<Rightarrow> error + string" where
  "otp_padded P truncated digits =
     (if max_string_length P < digits then Inl InvalidStringLength
      else Inr (otp_string truncated digits))"

section \<open>utils.ts\<close>

text \<open>\<open>Number.isInteger(x)\<close>\<close>

definition isInteger :: "number \<Rightarrow> bool" where
  "isInteger x = (case x of Fin r \<Rightarrow> of_int \<lfloor>r\<rfloor> = r | _ \<Rightarrow> False)"

text \<open>
  \<open>10 ** digits\<close> is only reached in \<open>utils.ts\<close> with \<open>digits\<close> a positive integer; its
  exponent as a natural number.
\<close>

fun digits_nat :: "number \<Rightarrow> nat" where
  "digits_nat (Fin d) = nat \<lfloor>d\<rfloor>"
| "digits_nat _ = 0"

text \<open>
  The body of the \<open>try\<close> block of \<open>generateTOTP\<close>; every \<open>throw\<close> is an \<open>Inl\<close>. \<open>now\<close> is
  the value of \<open>Date.now()\<close>, read once. The \<open>typeof\<close> tests hold by the parameters' types.
\<close>

definition utils_generateTOTP_try ::
  "platform \<Rightarrow> int \<Rightarrow> string \<Rightarrow> number \<Rightarrow> number \<Rightarrow> error + string" where
  "utils_generateTOTP_try P now secretBase32 period digits =
     (if secretBase32 = [] then Inl InvalidSecret
      else if js_le period (Num 0) then Inl InvalidPeriod
      else if js_le digits (Num 0) \<or> \<not> isInteger digits then Inl InvalidDigits
      else
        (case base32Decode P secretBase32 ''RFC4648'' of
           None \<Rightarrow> Inl Base32DecodeFailed
         | Some key \<Rightarrow>
             (let T = floor_div (Num now) (js_mul period (Num 1000)) in
              case hmacSha1 P key (TBytes T) of
                Inl e \<Rightarrow> Inl e
              | Inr hmacArray \<Rightarrow>
                  (let offset = offset_of hmacArray in
                   if offset + 3 < length hmacArray
                   then otp_padded P (truncate_loop hmacArray offset) (digits_nat digits)
                   else Inl HMACArrayTooSmall))))"

text \<open>The \<open>catch\<close> block: whatever was thrown, a fresh \<open>Error('Failed to generate TOTP')\<close>.\<close>

definition rethrow :: "error + string \<Rightarrow> error + string" where
  "rethrow r = (case r of Inl e \<Rightarrow> Inl FailedToGenerateTOTP | Inr code \<Rightarrow> Inr code)"

definition utils_generateTOTP ::
  "platform \<Rightarrow> int \<Rightarrow> string \<Rightarrow> number \<Rightarrow> number \<Rightarrow> error + string" where
  "utils_generateTOTP P now secretBase32 period digits =
     rethrow (utils_generateTOTP_try P now secretBase32 period digits)"

definition utils_generateTOTPWithT_try ::
  "platform \<Rightarrow> string \<Rightarrow> number \<Rightarrow> number \<Rightarrow> number \<Rightarrow> error + string" where
  "utils_generateTOTPWithT_try P secretBase32 T period digits =
     (if secretBase32 = [] then Inl InvalidSecret
      else if js_le period (Num 0) then Inl InvalidPeriod
      else if js_le digits (Num 0) \<or> \<not> isInteger digits then Inl InvalidDigits
      else if isNaN T then Inl InvalidTimeStep
      else
        (case base32Decode P secretBase32 ''RFC4648'' of
           None \<Rightarrow> Inl Base32DecodeFailed
         | Some key \<Rightarrow>
             (case hmacSha1 P key (TBytes T) of
                Inl e \<Rightarrow> Inl e
              | Inr hmacArray \<Rightarrow>
                  (let offset = offset_of hmacArray in
                   if offset + 3 < length hmacArray
                   then otp_padded P (truncate_loop hmacArray offset) (digits_nat digits)
                   else Inl HMACArrayTooSmall))))"

definition utils_generateTOTPWithT ::
  "platform \<Rightarrow> string \<Rightarrow> number \<Rightarrow> number \<Rightarrow> number \<Rightarrow> error + string" where
  "utils_generateTOTPWithT P secretBase32 T period digits =
     rethrow (utils_generateTOTPWithT_try P secretBase32 T period digits)"

text \<open>
  The window loop of \<open>verifyTOTP\<close>, the same in both files up to how the step is derived
  from the offset \<open>t\<close> (the argument \<open>generate\<close>):
  \<^verbatim>\<open>for (let t = -window; t <= window; t++) {
    const totp = await generateTOTPWithT(secretBase32, T, period, digits);
    if (totp === userInput) return true; }
  return false;\<close>
  \<open>None\<close> is a loop that never ends.
\<close>

partial_function (option) verify_loop ::
  "(number \<Rightarrow> error + string) \<Rightarrow> string \<Rightarrow> number \<Rightarrow> number \<Rightarrow> (error + bool) option" where
  "verify_loop generate userInput window t =
     (if js_le t window then
        (case generate t of
           Inl e \<Rightarrow> Some (Inl e)
         | Inr totp \<Rightarrow>
             if totp = userInput then Some (Inr True)
             else verify_loop generate userInput window (js_add t (Num 1)))
      else Some (Inr False))"

declare verify_loop.simps [code]

text \<open>The \<open>catch\<close> block of \<open>verifyTOTP\<close>: \<open>return false\<close>.\<close>

definition catch_false :: "(error + bool) option \<Rightarrow> bool option" where
  "catch_false r = (case r of None \<Rightarrow> None | Some (Inl e) \<Rightarrow> Some False | Some (Inr b) \<Rightarrow> Some b)"

definition utils_verifyTOTP_try ::
  "platform \<Rightarrow> int \<Rightarrow> string \<Rightarrow> string \<Rightarrow> number \<Rightarrow> number \<Rightarrow> number \<Rightarrow> (error + bool) option" where
  "utils_verifyTOTP_try P now secretBase32 userInput period digits window =
     (if secretBase32 = [] then Some (Inl InvalidSecret)
      else if js_le period (Num 0) then Some (Inl InvalidPeriod)
      else if js_le digits (Num 0) \<or> \<not> isInteger digits then Some (Inl InvalidDigits)
      else if userInput = [] then Some (Inl InvalidOTP)
      else
        (let currentTime = Num now;
             currentT = floor_div currentTime (js_mul period (Num 1000))
         in verify_loop
              (\<lambda>t. utils_generateTOTPWithT P secretBase32 (js_add currentT t) period digits)
              userInput window (js_neg window)))"

definition utils_verifyTOTP ::
  "platform \<Rightarrow> int \<Rightarrow> string \<Rightarrow> string \<Rightarrow> number \<Rightarrow> number \<Rightarrow> number \<Rightarrow> bool option" where
  "utils_verifyTOTP P now secretBase32 userInput period digits window =
     catch_false (utils_verifyTOTP_try P now secretBase32 userInput period digits window)"

section \<open>index.ts\<close>

text \<open>
  \<open>index.ts\<close> validates neither \<open>period\<close> nor \<open>digits\<close> and reads the four bytes without a
  bound check. Its \<open>digits\<close> is a natural number here: with a negative or fractional
  exponent \<open>10 ** digits\<close> is a fraction and the remainder a floating-point value.
\<close>

definition index_generateTOTP_try ::
  "platform \<Rightarrow> int \<Rightarrow> string \<Rightarrow> number \<Rightarrow> nat \<Rightarrow> error + string" where
  "index_generateTOTP_try P now secretBase32 period digits =
     (if secretBase32 = [] then Inl InvalidSecret
      else
        (case base32Decode P secretBase32 ''RFC4648'' of
           None \<Rightarrow> Inl Base32DecodeFailed
         | Some key \<Rightarrow>
             (let T = floor_div (Num now) (js_mul period (Num 1000)) in
              case hmacSha256 P key (TBytes T) of
                Inl e \<Rightarrow> Inl e
              | Inr hmacArray \<Rightarrow>
                  (let offset = offset_of hmacArray in
                   otp_padded P (truncate_loop hmacArray offset) digits))))"

definition index_generateTOTP ::
  "platform \<Rightarrow> int \<Rightarrow> string \<Rightarrow> number \<Rightarrow> nat \<Rightarrow> error + string" where
  "index_generateTOTP P now secretBase32 period digits =
     rethrow (index_generateTOTP_try P now secretBase32 period digits)"

definition index_generateTOTPWithT_try ::
  "platform \<Rightarrow> string \<Rightarrow> number \<Rightarrow> number \<Rightarrow> nat \<Rightarrow> error + string" where
  "index_generateTOTPWithT_try P secretBase32 T period digits =
     (if secretBase32 = [] then Inl InvalidSecret
      else if isNaN T then Inl InvalidTimeStep
      else
        (case base32Decode P secretBase32 ''RFC4648'' of
           None \<Rightarrow> Inl Base32DecodeFailed
         | Some key \<Rightarrow>
             (case hmacSha256 P key (TBytes T) of
                Inl e \<Rightarrow> Inl e
              | Inr hmacArray \<Rightarrow>
                  (let offset = offset_of hmacArray in
                   otp_padded P (truncate_loop hmacArray offset) digits))))"

definition index_generateTOTPWithT ::
  "platform \<Rightarrow> string \<Rightarrow> number \<Rightarrow> number \<Rightarrow> nat \<Rightarrow> error + string" where
  "index_generateTOTPWithT P secretBase32 T period digits =
     rethrow (index_generateTOTPWithT_try P secretBase32 T period digits)"

definition index_verifyTOTP_try ::
  "platform \<Rightarrow> int \<Rightarrow> string \<Rightarrow> string \<Rightarrow> number \<Rightarrow> nat \<Rightarrow> number \<Rightarrow> (error + bool) option" where
  "index_verifyTOTP_try P now secretBase32 userInput period digits window =
     (if secretBase32 = [] then Some (Inl InvalidSecret)
      else if userInput = [] then Some (Inl InvalidOTP)
      else
        (let currentTime = Num now
         in verify_loop
              (\<lambda>t. let T = floor_div (js_add currentTime (js_mul (js_mul t period) (Num 1000)))
                                     (js_mul period (Num 1000))
                   in index_generateTOTPWithT P secretBase32 T period digits)
              userInput window (js_neg window)))"

definition index_verifyTOTP ::
  "platform \<Rightarrow> int \<Rightarrow> string \<Rightarrow> string \<Rightarrow> number \<Rightarrow> nat \<Rightarrow> number \<Rightarrow> bool option" where
  "index_verifyTOTP P now secretBase32 userInput period digits window =
     catch_false (index_verifyTOTP_try P now secretBase32 userInput period digits window)"

section \<open>The two derivations of the step from a window offset\<close>

text \<open>
  \<open>utils.ts\<close>: \<open>currentT + t\<close> with \<open>currentT = Math.floor(currentTime / (period * 1000))\<close>;
  \<open>index.ts\<close>: \<open>Math.floor((currentTime + t * period * 1000) / (period * 1000))\<close>.
\<close>

definition utils_step :: "int \<Rightarrow> number \<Rightarrow> number \<Rightarrow> number" where
  "utils_step now period t = js_add (floor_div (Num now) (js_mul period (Num 1000))) t"

definition index_step :: "int \<Rightarrow> number \<Rightarrow> number \<Rightarrow> number" where
  "index_step now period t =
     floor_div (js_add (Num now) (js_mul (js_mul t period) (Num 1000))) (js_mul period (Num 1000))"

section \<open>Calls in their environment\<close>

text \<open>
  The generators once more, statement by statement, with everything a call can read or
  write besides its arguments made explicit: the clock behind \<open>Date.now()\<close>, the console
  behind \<open>console.error\<close>, and the state of the runtime behind the two collaborators,
  which the code cannot inspect (a type variable). A collaborator maps that state to a
  result and a new state, so that it may answer differently from one call to the next.
  The modules of the engine declare no variable of their own that a generator reads or
  writes.
\<close>

record 'e world =
  clock :: int
  console :: "string list"
  runtime :: 'e

record 'e collaborators =
  decode_call :: "string \<Rightarrow> string \<Rightarrow> 'e \<Rightarrow> byte list option \<times> 'e"
  hmac_call :: "string \<Rightarrow> byte list \<Rightarrow> byte list \<Rightarrow> 'e \<Rightarrow> byte list option \<times> 'e"
  string_limit :: nat

definition console_error :: "string \<Rightarrow> 'e world \<Rightarrow> 'e world" where
  "console_error message w = w\<lparr>console := console w @ [message]\<rparr>"

definition generateHMAC_in ::
  "'e collaborators \<Rightarrow> byte list \<Rightarrow> byte list \<Rightarrow> string \<Rightarrow> 'e world \<Rightarrow> (error + byte list) \<times> 'e world" where
  "generateHMAC_in E data key algorithm w =
     (case hmac_call E algorithm key data (runtime w) of
        (None, e) \<Rightarrow>
          (Inl (FailedToGenerateHMAC algorithm),
           console_error ''Error generating HMAC:'' (w\<lparr>runtime := e\<rparr>))
      | (Some signature, e) \<Rightarrow> (Inr signature, w\<lparr>runtime := e\<rparr>))"

definition hmacSha1_in ::
  "'e collaborators \<Rightarrow> byte list \<Rightarrow> byte list \<Rightarrow> 'e world \<Rightarrow> (error + byte list) \<times> 'e world" where
  "hmacSha1_in E key data = generateHMAC_in E data key ''SHA-1''"

definition hmacSha256_in ::
  "'e collaborators \<Rightarrow> byte list \<Rightarrow> byte list \<Rightarrow> 'e world \<Rightarrow> (error + byte list) \<times> 'e world" where
  "hmacSha256_in E key data = generateHMAC_in E data key ''SHA-256''"

definition base32Decode_in ::
  "'e collaborators \<Rightarrow> string \<Rightarrow> string \<Rightarrow> 'e world \<Rightarrow> (error + byte list) \<times> 'e world" where
  "base32Decode_in E input variant w =
     (case decode_call E input variant (runtime w) of
        (None, e) \<Rightarrow> (Inl Base32DecodeFailed, w\<lparr>runtime := e\<rparr>)
      | (Some key, e) \<Rightarrow> (Inr key, w\<lparr>runtime := e\<rparr>))"

definition otp_padded_in :: "'e collaborators \<Rightarrow> 32 word \<Rightarrow> nat \<Rightarrow> error + string" where
  "otp_padded_in E truncated digits =
     (if string_limit E < digits then Inl InvalidStringLength
      else Inr (otp_string truncated digits))"

text \<open>The \<open>catch\<close> block of a generator: log, then throw the fresh error.\<close>

definition catch_generate ::
  "string \<Rightarrow> (error + string) \<times> 'e world \<Rightarrow> (error + string) \<times> 'e world" where
  "catch_generate message r =
     (case r of
        (Inl e, w) \<Rightarrow> (Inl FailedToGenerateTOTP, console_error message w)
      | (Inr code, w) \<Rightarrow> (Inr code, w))"

definition utils_generateTOTPWithT_in ::
  "'e collaborators \<Rightarrow> string \<Rightarrow> number \<Rightarrow> number \<Rightarrow> number \<Rightarrow> 'e world \<Rightarrow> (error + string) \<times> 'e world" where
  "utils_generateTOTPWithT_in E secretBase32 T period digits w =
     catch_generate ''Error generating TOTP with specific T:''
       (if secretBase32 = [] then (Inl InvalidSecret, w)
        else if js_le period (Num 0) then (Inl InvalidPeriod, w)
        else if js_le digits (Num 0) \<or> \<not> isInteger digits then (Inl InvalidDigits, w)
        else if isNaN T then (Inl InvalidTimeStep, w)
        else
          (case base32Decode_in E secretBase32 ''RFC4648'' w of
             (Inl e, w1) \<Rightarrow> (Inl e, w1)
           | (Inr key, w1) \<Rightarrow>
               (case hmacSha1_in E key (TBytes T) w1 of
                  (Inl e, w2) \<Rightarrow> (Inl e, w2)
                | (Inr hmacArray, w2) \<Rightarrow>
                    (let offset = offset_of hmacArray in
                     if offset + 3 < length hmacArray
                     then (otp_padded_in E (truncate_loop hmacArray offset) (digits_nat digits), w2)
                     else (Inl HMACArrayTooSmall, w2)))))"

definition utils_generateTOTP_in ::
  "'e collaborators \<Rightarrow> string \<Rightarrow> number \<Rightarrow> number \<Rightarrow> 'e world \<Rightarrow> (error + string) \<times> 'e world" where
  "utils_generateTOTP_in E secretBase32 period digits w =
     catch_generate ''Error generating TOTP:''
       (if secretBase32 = [] then (Inl InvalidSecret, w)
        else if js_le period (Num 0) then (Inl InvalidPeriod, w)
        else if js_le digits (Num 0) \<or> \<not> isInteger digits then (Inl InvalidDigits, w)
        else
          (case base32Decode_in E secretBase32 ''RFC4648'' w of
             (Inl e, w1) \<Rightarrow> (Inl e, w1)
           | (Inr key, w1) \<Rightarrow>
               (let T = floor_div (Num (clock w1)) (js_mul period (Num 1000)) in
                case hmacSha1_in E key (TBytes T) w1 of
                  (Inl e, w2) \<Rightarrow> (Inl e, w2)
                | (Inr hmacArray, w2) \<Rightarrow>
                    (let offset = offset_of hmacArray in
                     if offset + 3 < length hmacArray
                     then (otp_padded_in E (truncate_loop hmacArray offset) (digits_nat digits), w2)
                     else (Inl HMACArrayTooSmall, w2)))))"

definition index_generateTOTPWithT_in ::
  "'e collaborators \<Rightarrow> string \<Rightarrow> number \<Rightarrow> number \<Rightarrow> nat \<Rightarrow> 'e world \<Rightarrow> (error + string) \<times> 'e world" where
  "index_generateTOTPWithT_in E secretBase32 T period digits w =
     catch_generate ''Error generating TOTP with specific T:''
       (if secretBase32 = [] then (Inl InvalidSecret, w)
        else if isNaN T then (Inl InvalidTimeStep, w)
        else
          (case base32Decode_in E secretBase32 ''RFC4648'' w of
             (Inl e, w1) \<Rightarrow> (Inl e, w1)
           | (Inr key, w1) \<Rightarrow>
               (case hmacSha256_in E key (TBytes T) w1 of
                  (Inl e, w2) \<Rightarrow> (Inl e, w2)
                | (Inr hmacArray, w2) \<Rightarrow>
                    (let offset = offset_of hmacArray in
                     (otp_padded_in E (truncate_loop hmacArray offset) digits, w2)))))"

definition index_generateTOTP_in ::
  "'e collaborators \<Rightarrow> string \<Rightarrow> number \<Rightarrow> nat \<Rightarrow> 'e world \<Rightarrow> (error + string) \<times> 'e world" where
  "index_generateTOTP_in E secretBase32 period digits w =
     catch_generate ''Error generating TOTP:''
       (if secretBase32 = [] then (Inl InvalidSecret, w)
        else
          (case base32Decode_in E secretBase32 ''RFC4648'' w of
             (Inl e, w1) \<Rightarrow> (Inl e, w1)
           | (Inr key, w1) \<Rightarrow>
               (let T = floor_div (Num (clock w1)) (js_mul period (Num 1000)) in
                case hmacSha256_in E key (TBytes T) w1 of
                  (Inl e, w2) \<Rightarrow> (Inl e, w2)
                | (Inr hmacArray, w2) \<Rightarrow>
                    (let offset = offset_of hmacArray in
                     (otp_padded_in E (truncate_loop hmacArray offset) digits, w2)))))"

text \<open>
  Collaborators are deterministic when their results do not depend on the state of the
  runtime (they may still change it).
\<close>

definition deterministic :: "'e collaborators \<Rightarrow> bool" where
  "deterministic E \<longleftrightarrow>
     (\<forall>input variant e e'. fst (decode_call E input variant e) = fst (decode_call E input variant e')) \<and>
     (\<forall>algorithm key data e e'.
        fst (hmac_call E algorithm key data e) = fst (hmac_call E algorithm key data e'))"

text \<open>
  The collaborators of a \<open>platform\<close>, which are functions: they neither read nor change
  the state of the runtime.
\<close>

definition stateless :: "platform \<Rightarrow> 'e collaborators" where
  "stateless P =
     \<lparr> decode_call = (\<lambda>input variant e. (base32Decode P input variant, e)),
       hmac_call = (\<lambda>algorithm key data e. (subtle_hmac P algorithm key data, e)),
       string_limit = max_string_length P \<rparr>"

text \<open>
  The other way round: the functions that deterministic collaborators compute, read off
  at one state of the runtime.
\<close>

definition platform_at :: "'e collaborators \<Rightarrow> 'e \<Rightarrow> platform" where
  "platform_at E e =
     \<lparr> base32Decode = (\<lambda>input variant. fst (decode_call E input variant e)),
       subtle_hmac = (\<lambda>algorithm key data. fst (hmac_call E algorithm key data e)),
       max_string_length = string_limit E \<rparr>"

text \<open>
  A keyed hash that is not deterministic, for comparison: it counts its calls in the
  state of the runtime and puts the count into the first byte of the MAC.
\<close>

definition counting :: "nat collaborators" where
  "counting =
     \<lparr> decode_call = (\<lambda>input variant e. (Some [1], e)),
       hmac_call = (\<lambda>algorithm key data e. (Some (of_nat e # replicate 19 0), Suc e)),
       string_limit = 2 ^ 29 - 24 \<rparr>"

section \<open>What the specification says, for comparison\<close>

text \<open>A big-endian unsigned integer read from bytes.\<close>

definition be_uint :: "byte list \<Rightarrow> nat" where
  "be_uint bs = foldl (\<lambda>acc b. acc * 256 + unat b) 0 bs"

text \<open>
  RFC 4226 dynamic truncation in the specification's words: the low nibble of the last
  byte is the offset, the four bytes from there are a big-endian unsigned 32-bit value,
  its high bit is masked, the rest is reduced modulo \<open>10 ^ digits\<close>.
\<close>

definition spec_truncate :: "byte list \<Rightarrow> nat \<Rightarrow> nat" where
  "spec_truncate mac digits =
     (let offset = unat (last mac) AND 15;
          truncatedValue = be_uint (take 4 (drop offset mac));
          maskedValue = truncatedValue AND 0x7FFFFFFF
      in maskedValue mod 10 ^ digits)"

text \<open>The eight big-endian bytes of an unsigned 64-bit counter.\<close>

definition spec_counter_bytes :: "nat \<Rightarrow> byte list" where
  "spec_counter_bytes T = map (\<lambda>i. of_nat (T div 256 ^ (7 - i))) [0..<8]"

text \<open>The unsigned integer a decimal string represents.\<close>

definition digit_value :: "char \<Rightarrow> nat" where
  "digit_value c = of_char c - 48"

definition decimal_value :: "string \<Rightarrow> nat" where
  "decimal_value s = foldl (\<lambda>acc c. acc * 10 + digit_value c) 0 s"

definition is_digit :: "char \<Rightarrow> bool" where
  "is_digit c = (c \<in> set ''0123456789'')"

text \<open>
  A code in the specification's words: a decimal string of exactly \<open>d\<close> characters,
  zero-padded on the left, that represents an unsigned integer below \<open>10 ^ d\<close>.
\<close>

definition spec_code :: "string \<Rightarrow> nat \<Rightarrow> bool" where
  "spec_code code d \<longleftrightarrow>
     length code = d \<and> list_all is_digit code \<and> decimal_value code < 10 ^ d \<and>
     code = padStart (toString (decimal_value code)) d CHR ''0''"

text \<open>The HMAC-SHA-1 value of the worked example of RFC 4226, section 5.4.\<close>

definition rfc4226_example_mac :: "byte list" where
  "rfc4226_example_mac =
     [0x1f, 0x86, 0x98, 0x69, 0x0e, 0x02, 0xca, 0x16, 0x61, 0x85,
      0x50, 0xef, 0x7f, 0x19, 0xda, 0x8e, 0x94, 0x5b, 0x55, 0x5a]"

section \<open>A stub platform for concrete runs\<close>

text \<open>
  It decodes the development secret of \<open>getKV\<close> and one secret to an empty key, and
  rejects every other string; its keyed hash rejects the empty key (as WebCrypto does on
  import) and otherwise returns a 20-byte value made of the low four counter bytes
  followed by zeros, so that the code of step \<open>T\<close> is \<open>T\<close> itself in decimal.
\<close>

definition stub_platform :: platform where
  "stub_platform =
     \<lparr> base32Decode = (\<lambda>s variant.
          if s = ''JBSWY3DPEHPK3PXP'' then Some [72, 101, 108, 108, 111, 33, 222, 173, 190, 239]
          else if s = ''A'' then Some []
          else None),
       subtle_hmac = (\<lambda>algorithm key data.
          if key = [] then None else Some (drop 4 data @ replicate 16 0)),
       max_string_length = 2 ^ 29 - 24 \<rparr>"

text \<open>What the stub's keyed hash returns for the counter \<open>0x12345678\<close>.\<close>

definition stub_example_mac :: "byte list" where
  "stub_example_mac = [0x12, 0x34, 0x56, 0x78, 0, 0, 0, 0, 0, 0, 0, 0, 0, 0, 0, 0, 0, 0, 0, 0]"

text \<open>The same platform with a keyed hash that returns three bytes only.\<close>

definition short_mac_platform :: platform where
  "short_mac_platform = stub_platform\<lparr>subtle_hmac := (\<lambda>algorithm key data. Some [18, 52, 1])\<rparr>"

section \<open>The window as a list of offsets\<close>

text \<open>
  What the loop of \<open>verifyTOTP\<close> computes when it runs over the integer offsets \<open>ks\<close> in
  order: the first error or the first match decides.
\<close>

fun scan :: "(number \<Rightarrow> error + string) \<Rightarrow> string \<Rightarrow> int list \<Rightarrow> error + bool" where
  "scan g u [] = Inr False"
| "scan g u (k # ks) =
     (case g (Num k) of
        Inl e \<Rightarrow> Inl e
      | Inr totp \<Rightarrow> if totp = u then Inr True else scan g u ks)"

section \<open>The window step on finite doubles\<close>

text \<open>
  The two step computations of \<open>verifyTOTP\<close> once more, on finite values in the normal
  range only, where rounding is \<open>to_double\<close>: \<open>None\<close> is a division by zero.
\<close>

definition dbl_mul :: "rat \<Rightarrow> rat \<Rightarrow> rat" where
  "dbl_mul x y = to_double (x * y)"

definition dbl_div :: "rat \<Rightarrow> rat \<Rightarrow> rat" where
  "dbl_div x y = to_double (x / y)"

definition dbl_add :: "rat \<Rightarrow> rat \<Rightarrow> rat" where
  "dbl_add x y = to_double (x + y)"

text \<open>
  \<open>utils.ts\<close>: \<open>currentT = Math.floor(currentTime / (period * 1000))\<close>, then
  \<open>T = currentT + t\<close>.
\<close>

definition utils_step_double :: "rat \<Rightarrow> rat \<Rightarrow> rat \<Rightarrow> rat option" where
  "utils_step_double currentTime period t =
     (if dbl_mul period 1000 = 0 then None
      else Some (dbl_add (of_int \<lfloor>dbl_div currentTime (dbl_mul period 1000)\<rfloor>) t))"

text \<open>
  \<open>index.ts\<close>: \<open>T = Math.floor((currentTime + t * period * 1000) / (period * 1000))\<close>.
\<close>

definition index_step_double :: "rat \<Rightarrow> rat \<Rightarrow> rat \<Rightarrow> rat option" where
  "index_step_double currentTime period t =
     (if dbl_mul period 1000 = 0 then None
      else Some (of_int \<lfloor>dbl_div (dbl_add currentTime (dbl_mul (dbl_mul t period) 1000))
                                  (dbl_mul period 1000)\<rfloor>))"

section \<open>Rounding\<close>

lemma exponent_up_bounds: "1 \<le> x \<Longrightarrow> 0 \<le> exponent_up x \<and> 2 powi (exponent_up x) \<le> x"
proof (induction x rule: exponent_up.induct)
  case (1 x)
  show ?case
  proof (cases "2 \<le> x")
    case True
    then have "1 \<le> x / 2" by simp
    from "1.IH" [OF True this] have ih: "0 \<le> exponent_up (x / 2)" "2 powi (exponent_up (x / 2)) \<le> x / 2"
      by simp_all
    have "2 powi (exponent_up (x / 2) + 1) = 2 * (2::rat) powi (exponent_up (x / 2))"
      by (simp add: power_int_add)
    also have "\<dots> \<le> x" using ih(2) by simp
    finally show ?thesis using True ih(1) by (simp add: exponent_up.simps [of x])
  next
    case False
    with "1.prems" show ?thesis by (simp add: exponent_up.simps [of x])
  qed
qed

lemma exponent_down_bounds: "0 < x \<Longrightarrow> x < 1 \<Longrightarrow> 2 powi (exponent_down x) \<le> x"
proof (induction x rule: exponent_down.induct)
  case (1 x)
  show ?case
  proof (cases "2 * x < 1")
    case True
    from "1.prems" have c: "0 < x \<and> x < 1" by simp
    from "1.prems" have "0 < 2 * x" by simp
    from "1.IH" [OF c this True] have ih: "2 powi (exponent_down (2 * x)) \<le> 2 * x" .
    have "2 powi (exponent_down (2 * x) - 1) = (2::rat) powi (exponent_down (2 * x)) / 2"
      by (simp add: power_int_diff)
    also have "\<dots> \<le> x" using ih by simp
    finally show ?thesis using c by (simp add: exponent_down.simps [of x])
  next
    case False
    then have "exponent_down (2 * x) = 0" by (simp add: exponent_down.simps [of "2 * x"])
    then have "exponent_down x = - 1" using "1.prems" by (simp add: exponent_down.simps [of x])
    moreover have "1 / 2 \<le> x" using False by simp
    ultimately show ?thesis by (simp add: power_int_minus)
  qed
qed

lemma exponent_bounds: "x \<noteq> 0 \<Longrightarrow> 2 powi (exponent x) \<le> \<bar>x\<bar>"
  using exponent_up_bounds [of "\<bar>x\<bar>"] exponent_down_bounds [of "\<bar>x\<bar>"]
  by (simp add: exponent_def)

lemma exponent_less:
  assumes "x \<noteq> 0" "\<bar>x\<bar> < 2 powi k"
  shows "exponent x < k"
proof (rule ccontr)
  assume "\<not> exponent x < k"
  then have "(2::rat) powi k \<le> 2 powi (exponent x)" by (intro power_int_increasing) simp_all
  also have "\<dots> \<le> \<bar>x\<bar>" using assms(1) by (rule exponent_bounds)
  finally show False using assms(2) by simp
qed

lemma round_half_even_of_int: "round_half_even (of_int j) = j"
  by (simp add: round_half_even_def)

lemma round_half_even_error: "\<bar>of_int (round_half_even r) - r\<bar> \<le> 1 / 2"
proof -
  define d where "d = r - of_int \<lfloor>r\<rfloor>"
  have d: "0 \<le> d" "d < 1" by (simp_all add: d_def) linarith
  consider "d < 1 / 2" | "1 / 2 < d" | "d = 1 / 2" by linarith
  then show ?thesis
  proof cases
    case 1
    then have "round_half_even r = \<lfloor>r\<rfloor>" by (simp add: round_half_even_def Let_def d_def)
    then show ?thesis using 1 d by (simp add: d_def)
  next
    case 2
    then have "round_half_even r = \<lfloor>r\<rfloor> + 1" by (simp add: round_half_even_def Let_def d_def)
    then show ?thesis using 2 d by (simp add: d_def abs_le_iff)
  next
    case 3
    then have "round_half_even r = \<lfloor>r\<rfloor> \<or> round_half_even r = \<lfloor>r\<rfloor> + 1"
      by (simp add: round_half_even_def Let_def d_def)
    then show ?thesis using 3 by (auto simp add: d_def abs_le_iff)
  qed
qed

text \<open>A rounded value is within half a unit in the last place of the exact one.\<close>

lemma to_double_ulp_error: "\<bar>to_double x - x\<bar> \<le> 2 powi (exponent x - 53)"
proof (cases "x = 0")
  case True
  then show ?thesis by (simp add: to_double_def)
next
  case False
  define u :: rat where "u = 2 powi (exponent x - 52)"
  have u0: "0 < u" by (simp add: u_def)
  have "to_double x - x = (of_int (round_half_even (x / u)) - x / u) * u"
    using False u0 by (simp add: to_double_def Let_def u_def [symmetric] algebra_simps)
  then have "\<bar>to_double x - x\<bar> = \<bar>of_int (round_half_even (x / u)) - x / u\<bar> * u"
    using u0 by (simp add: abs_mult)
  also have "\<dots> \<le> (1 / 2) * u" using round_half_even_error [of "x / u"] u0
    by (intro mult_right_mono) simp_all
  also have "\<dots> = 2 powi (exponent x - 53)"
    by (simp add: u_def power_int_diff)
  finally show ?thesis .
qed

lemma to_double_error: "\<bar>to_double x - x\<bar> \<le> \<bar>x\<bar> / 2 ^ 53"
proof (cases "x = 0")
  case True
  then show ?thesis by (simp add: to_double_def)
next
  case False
  have "2 powi (exponent x - 53) = 2 powi (exponent x) / (2::rat) ^ 53"
    by (simp add: power_int_diff)
  also have "\<dots> \<le> \<bar>x\<bar> / 2 ^ 53" using exponent_bounds [OF False] by (simp add: divide_right_mono)
  finally show ?thesis using to_double_ulp_error [of x] by linarith
qed

lemma to_double_half_error:
  assumes "\<bar>x\<bar> < 2 ^ 53"
  shows "\<bar>to_double x - x\<bar> \<le> 1 / 2"
proof (cases "x = 0")
  case True
  then show ?thesis by (simp add: to_double_def)
next
  case False
  from assms have "\<bar>x\<bar> < 2 powi 53" by simp
  with False have "exponent x < 53" by (rule exponent_less)
  then have "exponent x - 53 \<le> - 1" by simp
  then have "(2::rat) powi (exponent x - 53) \<le> 2 powi (- 1)"
    by (intro power_int_increasing) simp_all
  then show ?thesis using to_double_ulp_error [of x] by (simp add: power_int_minus)
qed

text \<open>Every integer up to \<open>2 ^ 53\<close> in magnitude is a double: rounding leaves it unchanged.\<close>

lemma to_double_of_int:
  assumes "\<bar>k\<bar> \<le> 2 ^ 53"
  shows "to_double (of_int k) = of_int k"
proof (cases "k = 0")
  case True
  then show ?thesis by (simp add: to_double_def)
next
  case False
  let ?x = "of_int k :: rat"
  let ?e = "exponent ?x"
  from False have "1 \<le> \<bar>k\<bar>" by simp
  then have x1: "1 \<le> \<bar>?x\<bar>" by (metis of_int_1_le_iff of_int_abs)
  then have e: "?e = exponent_up \<bar>?x\<bar>" by (simp add: exponent_def)
  from exponent_up_bounds [OF x1] e have e0: "0 \<le> ?e" and lo: "2 powi ?e \<le> \<bar>?x\<bar>" by simp_all
  have "(of_int \<bar>k\<bar> :: rat) \<le> of_int (2 ^ 53)" using assms by (simp only: of_int_le_iff)
  then have hi: "\<bar>?x\<bar> \<le> 2 ^ 53" by simp
  have e53: "?e \<le> 53"
  proof (rule ccontr)
    assume "\<not> ?e \<le> 53"
    then have "54 \<le> ?e" by simp
    then have "(2::rat) powi 54 \<le> 2 powi ?e" by (intro power_int_increasing) simp_all
    from this lo have "(2::rat) powi 54 \<le> \<bar>?x\<bar>" by (rule order_trans)
    from this hi have "(2::rat) powi 54 \<le> 2 ^ 53" by (rule order_trans)
    then show False by simp
  qed
  have x0: "?x \<noteq> 0" using False by simp
  show ?thesis
  proof (cases "?e \<le> 52")
    case True
    define s where "s = nat (52 - ?e)"
    have "?e - 52 = - int s" using True by (simp add: s_def)
    then have "(2::rat) powi (?e - 52) = 2 powi (- int s)" by (simp only:)
    also have "\<dots> = 1 / 2 ^ s"
      by (simp only: power_int_minus power_int_of_nat inverse_eq_divide)
    finally have u: "(2::rat) powi (?e - 52) = 1 / 2 ^ s" .
    have "?x / (1 / 2 ^ s) = of_int (k * 2 ^ s)" by simp
    then have r: "round_half_even (?x / (1 / 2 ^ s)) = k * 2 ^ s"
      by (simp only: round_half_even_of_int)
    have "to_double ?x = of_int (round_half_even (?x / (1 / 2 ^ s))) * (1 / 2 ^ s)"
      using x0 by (simp only: to_double_def Let_def u if_False)
    also have "\<dots> = ?x" unfolding r by simp
    finally show ?thesis .
  next
    case False
    with e53 have e': "?e = 53" by simp
    then have u: "(2::rat) powi (?e - 52) = 2" by simp
    from lo e' have "2 ^ 53 \<le> \<bar>?x\<bar>" by simp
    with hi have "\<bar>?x\<bar> = of_int (2 ^ 53)" by simp
    then have "of_int \<bar>k\<bar> = (of_int (2 ^ 53) :: rat)" by simp
    then have "\<bar>k\<bar> = 2 ^ 53" by (simp only: of_int_eq_iff)
    then have "even k" by (metis even_abs_add_iff even_add even_numeral even_power zero_less_numeral)
    then obtain j where j: "k = 2 * j" by (auto elim: evenE)
    have "?x / 2 = of_int j" by (simp add: j)
    then have r: "round_half_even (?x / 2) = j" by (simp only: round_half_even_of_int)
    have "to_double ?x = of_int (round_half_even (?x / 2)) * 2"
      using x0 by (simp only: to_double_def Let_def u if_False)
    also have "\<dots> = ?x" unfolding r by (simp add: j)
    finally show ?thesis .
  qed
qed

lemma abs_div_le_abs:
  fixes a m :: int
  assumes "0 < m"
  shows "\<bar>a div m\<bar> \<le> \<bar>a\<bar>"
proof (cases "0 \<le> a")
  case True
  from True assms have "a div m \<le> a div 1" by (intro zdiv_mono2) simp_all
  moreover have "0 \<le> a div m" using True assms by (simp add: pos_imp_zdiv_nonneg_iff)
  ultimately show ?thesis using True by simp
next
  case False
  then have "a div 1 \<le> a div m" using assms by (intro zdiv_mono2_neg) simp_all
  moreover have "a div m < 0" using False assms by (simp add: pos_imp_zdiv_neg_iff)
  ultimately show ?thesis using False by simp
qed

text \<open>
  The floor of a rounded quotient of integers, the dividend below \<open>2 ^ 53\<close>, is the floor
  of the exact quotient.
\<close>

lemma floor_to_double_quotient_pos:
  assumes m: "0 < m" and a: "\<bar>a\<bar> < 2 ^ 53"
  shows "\<lfloor>to_double (of_int a / of_int m)\<rfloor> = a div m"
proof (cases "a mod m = 0")
  case True
  then have "a = (a div m) * m" by auto
  then have "(of_int a :: rat) = of_int (a div m) * of_int m" by (metis of_int_mult)
  then have q: "(of_int a / of_int m :: rat) = of_int (a div m)" using m by simp
  have "\<bar>a div m\<bar> \<le> \<bar>a\<bar>" using m by (rule abs_div_le_abs)
  with a have "\<bar>a div m\<bar> \<le> 2 ^ 53" by simp
  then show ?thesis unfolding q by (simp only: to_double_of_int floor_of_int)
next
  case False
  define q :: rat where "q = of_int a / of_int m"
  define n where "n = a div m"
  define r where "r = a mod m"
  have r: "1 \<le> r" "r \<le> m - 1"
    using pos_mod_sign [OF m, of a] pos_mod_bound [OF m, of a] False unfolding r_def
    by linarith+
  have "a = n * m + r" by (simp add: n_def r_def)
  then have "(of_int a :: rat) = of_int n * of_int m + of_int r" by (metis of_int_add of_int_mult)
  then have qn: "q = of_int n + of_int r / of_int m" using m by (simp add: q_def field_simps)
  have m': "(0::rat) < of_int m" using m by simp
  have "(1::rat) \<le> of_int r" "(of_int r :: rat) \<le> of_int m - 1" using r by linarith+
  then have lo: "of_int n + 1 / of_int m \<le> q" and hi: "q + 1 / of_int m \<le> of_int n + 1"
    using m' by (simp_all add: qn field_simps)
  have "\<bar>q\<bar> = of_int \<bar>a\<bar> / of_int m" using m by (simp add: q_def)
  moreover have "(of_int \<bar>a\<bar> :: rat) < of_int (2 ^ 53)" using a by (simp only: of_int_less_iff)
  ultimately have "\<bar>q\<bar> / 2 ^ 53 < 1 / of_int m" using m' by (simp add: field_simps)
  with to_double_error [of q] have "\<bar>to_double q - q\<bar> < 1 / of_int m" by simp
  with lo hi have "of_int n \<le> to_double q" "to_double q < of_int n + 1" by linarith+
  then have "\<lfloor>to_double q\<rfloor> = n" by (simp add: floor_unique)
  then show ?thesis by (simp add: q_def n_def)
qed

lemma floor_to_double_quotient:
  assumes m: "m \<noteq> 0" and a: "\<bar>a\<bar> < 2 ^ 53"
  shows "\<lfloor>to_double (of_int a / of_int m)\<rfloor> = a div m"
proof (cases "0 < m")
  case True
  then show ?thesis using a by (rule floor_to_double_quotient_pos)
next
  case False
  with m have "0 < - m" by simp
  moreover have "\<bar>- a\<bar> < 2 ^ 53" using a by simp
  ultimately have "\<lfloor>to_double (of_int (- a) / of_int (- m))\<rfloor> = (- a) div (- m)"
    by (rule floor_to_double_quotient_pos)
  then show ?thesis by simp
qed






section \<open>Arithmetic on integer-valued numbers\<close>

lemma js_round_of_int:
  assumes "\<bar>k\<bar> \<le> 2 ^ 53"
  shows "js_round (of_int k) = Num k"
proof (cases "k = 0")
  case True
  then show ?thesis by (simp add: js_round_def Num_def round_half_even_def)
next
  case False
  then have "1 \<le> \<bar>k\<bar>" by simp
  then have x1: "(1::rat) \<le> \<bar>of_int k\<bar>" by (metis of_int_1_le_iff of_int_abs)
  have "(2::rat) powi (- 1022) \<le> 2 powi 0" by (intro power_int_increasing) simp_all
  with x1 have n: "\<not> \<bar>of_int k :: rat\<bar> < 2 powi (- 1022)" by simp
  have "(of_int \<bar>k\<bar> :: rat) \<le> of_int (2 ^ 53)" using assms by (simp only: of_int_le_iff)
  then have "\<bar>of_int k :: rat\<bar> \<le> 2 ^ 53" by simp
  also have "\<dots> < 2 ^ 1024" by (intro power_strict_increasing) simp_all
  finally have "\<not> (2::rat) ^ 1024 \<le> \<bar>of_int k\<bar>" by simp
  with n show ?thesis
    by (simp only: js_round_def to_double_of_int [OF assms] if_False Num_def)
qed

lemma js_round_neq_NaN [simp]: "js_round x \<noteq> NaN"
proof (cases "x = 0")
  case True
  then show ?thesis by (simp add: js_round_def)
next
  case False
  then show ?thesis by (simp add: js_round_def signed_infinity_def)
qed

lemma js_round_quotient:
  assumes m: "m \<noteq> 0" "\<bar>m\<bar> < 2 ^ 53" and a: "\<bar>a\<bar> < 2 ^ 53"
  shows "js_floor (js_round (of_int a / of_int m)) = Num (a div m)"
proof (cases "a = 0")
  case True
  then show ?thesis by (simp add: js_round_def Num_def round_half_even_def)
next
  case False
  define x :: rat where "x = of_int a / of_int m"
  have m0: "(0::rat) < \<bar>of_int m\<bar>" using m(1) by simp
  have "(of_int \<bar>m\<bar> :: rat) < of_int (2 ^ 53)" using m(2) by (simp only: of_int_less_iff)
  then have mb: "\<bar>of_int m :: rat\<bar> < 2 ^ 53" by simp
  from False have "1 \<le> \<bar>a\<bar>" by simp
  then have a1: "(1::rat) \<le> \<bar>of_int a\<bar>" by (metis of_int_1_le_iff of_int_abs)
  have "(of_int \<bar>a\<bar> :: rat) < of_int (2 ^ 53)" using a by (simp only: of_int_less_iff)
  then have ab: "\<bar>of_int a :: rat\<bar> < 2 ^ 53" by simp
  have ax: "\<bar>x\<bar> = \<bar>of_int a\<bar> / \<bar>of_int m\<bar>" by (simp add: x_def)
  have "1 / 2 ^ 53 < 1 / \<bar>of_int m :: rat\<bar>" using m0 mb by (simp add: field_simps)
  also have "\<dots> \<le> \<bar>x\<bar>" unfolding ax using a1 m0 by (simp add: divide_right_mono)
  finally have lo: "1 / 2 ^ 53 < \<bar>x\<bar>" .
  have "(2::rat) powi (- 1022) \<le> 2 powi (- 53)" by (intro power_int_increasing) simp_all
  also have "\<dots> = 1 / 2 ^ 53" by (simp add: power_int_minus field_simps)
  finally have n: "\<not> \<bar>x\<bar> < 2 powi (- 1022)" using lo by simp
  have "1 \<le> \<bar>m\<bar>" using m(1) by simp
  then have "(1::rat) \<le> \<bar>of_int m\<bar>" by (metis of_int_1_le_iff of_int_abs)
  then have "\<bar>x\<bar> \<le> \<bar>of_int a\<bar>" unfolding ax using m0
    by (simp add: field_simps mult_le_cancel_left1)
  with ab have xb: "\<bar>x\<bar> < 2 ^ 53" by simp
  have "\<bar>to_double x\<bar> \<le> \<bar>x\<bar> + \<bar>to_double x - x\<bar>" by simp
  also have "\<dots> \<le> \<bar>x\<bar> + 1 / 2" using to_double_half_error [OF xb] by simp
  also have "\<dots> < 2 ^ 53 + 1 / 2" using xb by simp
  also have "\<dots> \<le> 2 ^ 54" by simp
  also have "\<dots> \<le> (2::rat) ^ 1024" by (intro power_increasing) simp_all
  finally have o: "\<not> 2 ^ 1024 \<le> \<bar>to_double x\<bar>" by simp
  have "js_round x = Fin (to_double x)" using n o by (simp add: js_round_def)
  then show ?thesis
    using floor_to_double_quotient [OF m(1) a] by (simp add: x_def Num_def)
qed

lemma Num_eq_iff [simp]: "Num a = Num b \<longleftrightarrow> a = b"
  by (simp add: Num_def)

lemma Num_distinct [simp]:
  "Num a \<noteq> NaN" "Num a \<noteq> Infinity" "Num a \<noteq> NegInfinity"
  "NaN \<noteq> Num a" "Infinity \<noteq> Num a" "NegInfinity \<noteq> Num a"
  by (simp_all add: Num_def)


lemma signed_infinity_of_int:
  "signed_infinity (of_int a) = (if a = 0 then NaN else if 0 < a then Infinity else NegInfinity)"
  "signed_infinity (- of_int a) = (if a = 0 then NaN else if a < 0 then Infinity else NegInfinity)"
  by (simp_all add: signed_infinity_def)

lemma js_neg_Num [simp]: "js_neg (Num n) = Num (- n)"
  by (simp add: Num_def)

lemma js_le_Num [simp]:
  "js_le (Num a) (Num b) = (a \<le> b)"
  "js_le (Num a) Infinity = True"
  "js_le (Num a) NegInfinity = False"
  "js_le Infinity (Num b) = False"
  "js_le NegInfinity (Num b) = True"
  "js_le (Fin x) (Num b) = (x \<le> of_int b)"
  "js_le (Num a) (Fin y) = (of_int a \<le> y)"
  by (simp_all add: Num_def)

lemma js_add_Num:
  "\<bar>a + b\<bar> \<le> 2 ^ 53 \<Longrightarrow> js_add (Num a) (Num b) = Num (a + b)"
  using js_round_of_int [of "a + b"] by (simp add: Num_def)

lemma js_add_Num_inf [simp]:
  "js_add (Num a) Infinity = Infinity"
  "js_add (Num a) NegInfinity = NegInfinity"
  "js_add Infinity (Num b) = Infinity"
  "js_add NegInfinity (Num b) = NegInfinity"
  by (simp_all add: Num_def)

lemma js_add_neq_NaN [simp]:
  "js_add (Fin a) (Fin b) \<noteq> NaN" "js_add (Num m) (Fin b) \<noteq> NaN" "js_add (Fin a) (Num n) \<noteq> NaN"
  "js_add (Num m) (Num n) \<noteq> NaN"
  by (simp_all add: Num_def)

lemma js_mul_Num:
  "\<bar>a * b\<bar> \<le> 2 ^ 53 \<Longrightarrow> js_mul (Num a) (Num b) = Num (a * b)"
  using js_round_of_int [of "a * b"] by (simp add: Num_def)

lemma js_mul_Num_inf [simp]:
  "js_mul (Num a) Infinity = signed_infinity (of_int a)"
  "js_mul (Num a) NegInfinity = signed_infinity (- of_int a)"
  "js_mul Infinity (Num b) = signed_infinity (of_int b)"
  "js_mul NegInfinity (Num b) = signed_infinity (- of_int b)"
  by (simp_all add: Num_def)

lemma floor_div_Num:
  "b \<noteq> 0 \<Longrightarrow> \<bar>b\<bar> < 2 ^ 53 \<Longrightarrow> \<bar>a\<bar> < 2 ^ 53 \<Longrightarrow> floor_div (Num a) (Num b) = Num (a div b)"
  using js_round_quotient [of b a] by (simp add: floor_div_def Num_def)

lemma floor_div_Num_0 [simp]:
  "floor_div (Num a) (Num 0) = signed_infinity (of_int a)"
  by (simp add: floor_div_def Num_def signed_infinity_def)

lemma floor_div_special [simp]:
  "floor_div (Num a) Infinity = Num 0"
  "floor_div (Num a) NegInfinity = Num 0"
  "floor_div (Fin x) Infinity = Num 0"
  "floor_div (Fin x) NegInfinity = Num 0"
  "floor_div Infinity (Num b) = (if b < 0 then NegInfinity else Infinity)"
  "floor_div NegInfinity (Num b) = (if b < 0 then Infinity else NegInfinity)"
  "floor_div Infinity (Fin y) = (if y < 0 then NegInfinity else Infinity)"
  "floor_div NegInfinity (Fin y) = (if y < 0 then Infinity else NegInfinity)"
  "floor_div Infinity Infinity = NaN"
  "floor_div Infinity NegInfinity = NaN"
  "floor_div NegInfinity Infinity = NaN"
  "floor_div NegInfinity NegInfinity = NaN"
  "floor_div NaN v = NaN"
  by (simp_all add: floor_div_def Num_def)

lemma floor_div_NaN_right [simp]: "floor_div v NaN = NaN"
  by (cases v) (simp_all add: floor_div_def)

lemma trunc_of_int [simp]: "trunc (of_int n) = n"
  by (simp add: trunc_def)

lemma ToUint32_Num [simp]: "ToUint32 (Num n) = word_of_int n"
  by (simp add: Num_def)

lemma ToUint8_Num [simp]: "ToUint8 (Num n) = word_of_int n"
  by (simp add: Num_def)

lemma isInteger_Num [simp]: "isInteger (Num n)"
  by (simp add: isInteger_def Num_def)

lemma isInteger_iff: "isInteger d \<longleftrightarrow> (\<exists>n. d = Num n)"
proof (cases d)
  case (Fin r)
  have "of_int \<lfloor>r\<rfloor> = r \<longleftrightarrow> (\<exists>n. r = of_int n)" by (metis floor_of_int)
  then show ?thesis using Fin by (simp add: isInteger_def Num_def)
qed (simp_all add: isInteger_def)

lemma digits_nat_Num [simp]: "digits_nat (Num d) = nat d"
  by (simp add: Num_def)

lemma isNaN_Num [simp]: "\<not> isNaN (Num n)"
  by (simp add: isNaN_def)

lemma js_add_NaN [simp]: "js_add v NaN = NaN" "js_add NaN v = NaN"
  by (cases v; simp)+

lemma js_mul_NaN [simp]: "js_mul v NaN = NaN" "js_mul NaN v = NaN"
  by (cases v; simp)+

lemma js_le_NaN [simp]: "\<not> js_le v NaN" "\<not> js_le NaN v"
  by (cases v; simp)+

lemmas js_eval = js_add_Num js_mul_Num floor_div_Num signed_infinity_of_int


section \<open>Bits and bytes\<close>

lemma or_push_bit_add:
  fixes x y :: nat
  assumes "x < 2 ^ k"
  shows "push_bit k y OR x = y * 2 ^ k + x"
proof -
  have "push_bit k y + x = push_bit k y OR x"
  proof (rule disjunctive_add)
    fix n
    show "\<not> bit (push_bit k y) n \<or> \<not> bit x n"
    proof (cases "n < k")
      case True
      then show ?thesis by (simp add: bit_push_bit_iff)
    next
      case False
      then have "(2::nat) ^ k \<le> 2 ^ n" by (simp add: power_increasing)
      with assms have "x < 2 ^ n" by linarith
      then have "x div 2 ^ n = 0" by simp
      then show ?thesis by (simp add: bit_iff_odd)
    qed
  qed
  then show ?thesis by (simp add: push_bit_eq_mult)
qed

lemma unat_push_byte:
  fixes b :: byte
  assumes "k \<le> 24"
  shows "unat (push_bit k (ucast b) :: 32 word) = push_bit k (unat b)"
proof -
  have b: "unat b < 2 ^ 8" using unsigned_less [of b] by simp
  have "unat b * 2 ^ k < 2 ^ 8 * 2 ^ k" using b by simp
  also have "\<dots> = 2 ^ (8 + k)" by (simp add: power_add)
  also have "\<dots> \<le> (2::nat) ^ 32" using assms by (intro power_increasing) auto
  finally have "push_bit k (unat b) < 2 ^ 32" by (simp add: push_bit_eq_mult)
  moreover have "take_bit 32 (unat b) = unat b"
    using b by (intro take_bit_nat_eq_self) (simp)
  ultimately show ?thesis
    by (simp add: unsigned_push_bit_eq unsigned_ucast_eq take_bit_nat_eq_self)
qed

lemma unat_ucast_byte: "unat (ucast (b :: byte) :: 32 word) = unat b"
  using unat_push_byte [of 0 b] by simp

lemma unat_cat4:
  fixes b0 b1 b2 b3 :: byte
  shows "unat (push_bit 24 (ucast b0) OR push_bit 16 (ucast b1) OR push_bit 8 (ucast b2)
               OR (ucast b3) :: 32 word)
     = unat b0 * 2 ^ 24 + unat b1 * 2 ^ 16 + unat b2 * 2 ^ 8 + unat b3"
proof -
  have b: "unat b0 < 256" "unat b1 < 256" "unat b2 < 256" "unat b3 < 256"
    using unsigned_less [of b0] unsigned_less [of b1] unsigned_less [of b2] unsigned_less [of b3]
    by simp_all
  have s1: "push_bit 8 (unat b2) OR unat b3 = unat b2 * 2 ^ 8 + unat b3"
    using b by (intro or_push_bit_add) simp
  have s2: "push_bit 16 (unat b1) OR (unat b2 * 2 ^ 8 + unat b3)
              = unat b1 * 2 ^ 16 + (unat b2 * 2 ^ 8 + unat b3)"
    using b by (intro or_push_bit_add) simp
  have s3: "push_bit 24 (unat b0) OR (unat b1 * 2 ^ 16 + (unat b2 * 2 ^ 8 + unat b3))
              = unat b0 * 2 ^ 24 + (unat b1 * 2 ^ 16 + (unat b2 * 2 ^ 8 + unat b3))"
    using b by (intro or_push_bit_add) simp
  show ?thesis
    by (simp only: unsigned_or_eq unat_push_byte unat_ucast_byte s1 s2 s3)
qed

lemma unat_and_mask_mod: "unat ((w::32 word) AND mask n) = unat w mod 2 ^ n"
proof -
  have "w AND mask n = take_bit n w" by (simp add: take_bit_eq_mask)
  then have "unat (w AND mask n) = take_bit n (unat w)" by (simp only: unsigned_take_bit_eq)
  then show ?thesis by (simp only: take_bit_eq_mod)
qed

lemma unat_and_mask31: "unat ((w::32 word) AND 0x7FFFFFFF) = unat w mod 2 ^ 31"
  using unat_and_mask_mod [of w 31] by (simp add: mask_eq_exp_minus_1)

lemma unat_and_15: "unat ((w::32 word) AND 15) = unat w mod 16"
  using unat_and_mask_mod [of w 4] by (simp add: mask_eq_exp_minus_1)

lemma nat_and_mask_mod: "(n::nat) AND mask k = n mod 2 ^ k"
  by (simp add: take_bit_eq_mod flip: take_bit_eq_mask)

lemma nat_and_15: "(n::nat) AND 15 = n mod 16"
  using nat_and_mask_mod [of n 4] by (simp add: mask_eq_exp_minus_1)

lemma nat_and_mask31: "(n::nat) AND 0x7FFFFFFF = n mod 2 ^ 31"
  using nat_and_mask_mod [of n 31] by (simp add: mask_eq_exp_minus_1)

section \<open>The counter bytes\<close>

lemma rev_upt_8: "rev [0..<8] = [7, 6, 5, 4, 3, 2, 1, 0::nat]"
  by (simp add: upt_rec)

lemma ToUint32_ushr: "ToUint32 (js_ushr x k) = drop_bit k (ToUint32 x)"
  by (simp add: js_ushr_def)

lemma ToUint8_and_255: "ToUint8 (js_and x (Num 255)) = ucast (ToUint32 x)"
proof -
  have "(255::32 word) = mask 8" by (simp add: mask_eq_exp_minus_1)
  then have "ToUint8 (js_and x (Num 255)) = word_of_int (sint (ToUint32 x AND mask 8))"
    by (simp add: js_and_def)
  also have "\<dots> = ucast (ToUint32 x)"
    by (rule bit_word_eqI) (auto simp add: bit_simps)
  finally show ?thesis .
qed

lemma TBytes_closed:
  "TBytes T = [0, 0, 0, 0,
               ucast (drop_bit 24 (ToUint32 T)), ucast (drop_bit 16 (ToUint32 T)),
               ucast (drop_bit 8 (ToUint32 T)), ucast (ToUint32 T)]"
  by (simp add: TBytes_def rev_upt_8 TBytes_step_def ToUint8_and_255 ToUint32_ushr numeral_eq_Suc)

lemma TBytes_cong: "ToUint32 T1 = ToUint32 T2 \<Longrightarrow> TBytes T1 = TBytes T2"
  by (simp add: TBytes_closed)

lemma ToUint32_cong: "a mod 2 ^ 32 = b mod 2 ^ 32 \<Longrightarrow> ToUint32 (Num a) = ToUint32 (Num b)"
  by (simp add: word_of_int_eq_iff take_bit_eq_mod)

section \<open>Truncation\<close>

lemma upt_4: "[0..<4] = [0, 1, 2, 3::nat]"
  by (simp add: upt_rec)

lemma js_at_nat: "js_at a (int k) = (if k < length a then Some (a ! k) else None)"
  by (simp add: js_at_def)

lemma truncate_step_eq:
  "truncate_step mac off tr i =
     push_bit 8 tr OR (if off + i < length mac then ucast (mac ! (off + i)) else 0)"
  unfolding truncate_step_def js_at_nat by simp

lemma truncate_loop_closed:
  assumes "off + 4 \<le> length mac"
  shows "truncate_loop mac off =
     push_bit 24 (ucast (mac ! off)) OR push_bit 16 (ucast (mac ! (off + 1)))
       OR push_bit 8 (ucast (mac ! (off + 2))) OR ucast (mac ! (off + 3))"
  using assms
  by (simp add: truncate_loop_def upt_4 truncate_step_eq ac_simps)

lemma take_4_drop:
  assumes "off + 4 \<le> length xs"
  shows "take 4 (drop off xs) = [xs ! off, xs ! (off + 1), xs ! (off + 2), xs ! (off + 3)]"
proof (rule nth_equalityI)
  show "length (take 4 (drop off xs)) = length [xs ! off, xs ! (off + 1), xs ! (off + 2), xs ! (off + 3)]"
    using assms by simp
next
  fix i assume "i < length (take 4 (drop off xs))"
  then have "i < 4" by simp
  then have "i = 0 \<or> i = 1 \<or> i = 2 \<or> i = 3" by linarith
  with assms show "take 4 (drop off xs) ! i = [xs ! off, xs ! (off + 1), xs ! (off + 2), xs ! (off + 3)] ! i"
    by auto
qed

lemma be_uint_4: "be_uint [b0, b1, b2, b3] = unat b0 * 2 ^ 24 + unat b1 * 2 ^ 16 + unat b2 * 2 ^ 8 + unat b3"
  by (simp add: be_uint_def)

lemma unat_truncate_loop:
  assumes "off + 4 \<le> length mac"
  shows "unat (truncate_loop mac off) = be_uint (take 4 (drop off mac))"
  using assms by (simp only: truncate_loop_closed unat_cat4 take_4_drop be_uint_4)

lemma offset_of_Nil: "offset_of [] = 0"
  by (simp add: offset_of_def js_at_def)

lemma js_at_last: "mac \<noteq> [] \<Longrightarrow> js_at mac (int (length mac) - 1) = Some (last mac)"
proof -
  assume ne: "mac \<noteq> []"
  then have "int (length mac) - 1 = int (length mac - 1)" by (cases mac) simp_all
  then show ?thesis using ne by (simp only: js_at_nat) (simp add: last_conv_nth)
qed

lemma offset_of_last: "mac \<noteq> [] \<Longrightarrow> offset_of mac = unat (last mac) mod 16"
  by (simp add: offset_of_def js_at_last unat_and_15 unat_ucast_byte)

lemma offset_of_less: "offset_of mac < 16"
  by (cases "mac = []") (simp_all add: offset_of_Nil offset_of_last)

lemma otp_of_spec:
  assumes "offset_of mac + 4 \<le> length mac"
  shows "otp_of (truncate_loop mac (offset_of mac)) digits = spec_truncate mac digits"
proof -
  from assms have ne: "mac \<noteq> []" by auto
  show ?thesis
    using assms
    by (simp add: otp_of_def spec_truncate_def unat_and_mask31 unat_truncate_loop
        nat_and_15 nat_and_mask31 offset_of_last [OF ne])
qed

section \<open>Codes as decimal strings\<close>

lemma digit_char_is_digit: "d < 10 \<Longrightarrow> is_digit (digit_char d)"
  unfolding is_digit_def digit_char_def by (rule nth_mem) simp

lemma digit_value_digit_char: "d < 10 \<Longrightarrow> digit_value (digit_char d) = d"
proof -
  assume "d < 10"
  then have "d = 0 \<or> d = 1 \<or> d = 2 \<or> d = 3 \<or> d = 4 \<or> d = 5 \<or> d = 6 \<or> d = 7 \<or> d = 8 \<or> d = 9"
    by presburger
  then show ?thesis
    by (elim disjE) (simp_all add: digit_value_def digit_char_def)
qed

lemma toString_is_digit: "c \<in> set (toString n) \<Longrightarrow> is_digit c"
proof (induction n rule: toString.induct)
  case (1 n)
  show ?case
  proof (cases "n < 10")
    case True
    with "1.prems" show ?thesis
      by (simp add: toString.simps [of n] digit_char_is_digit)
  next
    case False
    with "1.prems" have "c \<in> set (toString (n div 10)) \<or> c = digit_char (n mod 10)"
      by (auto simp add: toString.simps [of n])
    then show ?thesis
      using "1.IH" [OF False] by (auto simp add: digit_char_is_digit)
  qed
qed

lemma toString_not_Nil: "toString n \<noteq> []"
  by (simp add: toString.simps [of n])

lemma toString_length: "0 < d \<Longrightarrow> n < 10 ^ d \<Longrightarrow> length (toString n) \<le> d"
proof (induction n arbitrary: d rule: toString.induct)
  case (1 n)
  show ?case
  proof (cases "n < 10")
    case True
    with "1.prems" show ?thesis by (simp add: toString.simps [of n])
  next
    case False
    obtain e where d: "d = Suc e" using "1.prems"(1) by (cases d) auto
    have "e \<noteq> 0"
    proof
      assume "e = 0"
      with d "1.prems"(2) False show False by simp
    qed
    then have e: "0 < e" by simp
    have "n div 10 < 10 ^ e" using "1.prems"(2) d by (simp add: less_mult_imp_div_less mult.commute)
    then have "length (toString (n div 10)) \<le> e"
      using "1.IH" [OF False e] by simp
    then show ?thesis using False d by (simp add: toString.simps [of n])
  qed
qed

lemma decimal_value_snoc: "decimal_value (s @ [c]) = decimal_value s * 10 + digit_value c"
  by (simp add: decimal_value_def)

lemma decimal_value_toString: "decimal_value (toString n) = n"
proof (induction n rule: toString.induct)
  case (1 n)
  show ?case
  proof (cases "n < 10")
    case True
    then show ?thesis
      by (simp add: toString.simps [of n] decimal_value_def digit_value_digit_char)
  next
    case False
    then show ?thesis
      using "1.IH" [OF False]
      by (simp add: toString.simps [of n] decimal_value_snoc digit_value_digit_char)
  qed
qed

lemma foldl_zeros:
  "foldl (\<lambda>acc c. acc * 10 + digit_value c) 0 (replicate k CHR ''0'') = 0"
  by (induction k) (simp_all add: digit_value_def)

lemma decimal_value_padStart: "decimal_value (padStart s n CHR ''0'') = decimal_value s"
  by (simp add: decimal_value_def padStart_def foldl_zeros)

lemma length_padStart: "length (padStart s n c) = max n (length s)"
  by (simp add: padStart_def)

lemma otp_of_less: "otp_of tr d < 10 ^ d"
  by (simp add: otp_of_def)

lemma otp_string_length: "0 < d \<Longrightarrow> length (otp_string tr d) = d"
  using toString_length [OF _ otp_of_less, of d tr]
  by (simp add: otp_string_def length_padStart)

lemma otp_string_digits: "c \<in> set (otp_string tr d) \<Longrightarrow> is_digit c"
  by (auto simp add: otp_string_def padStart_def is_digit_def dest: toString_is_digit [unfolded is_digit_def])

lemma otp_string_value: "decimal_value (otp_string tr d) = otp_of tr d"
  by (simp add: otp_string_def decimal_value_padStart decimal_value_toString)

lemma otp_string_not_Nil: "otp_string tr d \<noteq> []"
  by (simp add: otp_string_def padStart_def toString_not_Nil)

section \<open>Generators\<close>

lemma rethrow_Inr: "rethrow r = Inr code \<longleftrightarrow> r = Inr code"
  by (simp add: rethrow_def split: sum.splits)

lemma rethrow_Inl: "rethrow r = Inl e \<longleftrightarrow> e = FailedToGenerateTOTP \<and> (\<exists>e'. r = Inl e')"
  by (auto simp add: rethrow_def split: sum.splits)

lemma hmacSha1_Inr: "hmacSha1 P key data = Inr mac \<longleftrightarrow> subtle_hmac P ''SHA-1'' key data = Some mac"
  by (simp add: hmacSha1_def generateHMAC_def split: option.splits)

lemma hmacSha256_Inr: "hmacSha256 P key data = Inr mac \<longleftrightarrow> subtle_hmac P ''SHA-256'' key data = Some mac"
  by (simp add: hmacSha256_def generateHMAC_def split: option.splits)

lemma hmacSha1_Inl:
  "hmacSha1 P key data = Inl e \<longleftrightarrow>
     subtle_hmac P ''SHA-1'' key data = None \<and> e = FailedToGenerateHMAC ''SHA-1''"
  by (auto simp add: hmacSha1_def generateHMAC_def split: option.splits)

lemma hmacSha256_Inl:
  "hmacSha256 P key data = Inl e \<longleftrightarrow>
     subtle_hmac P ''SHA-256'' key data = None \<and> e = FailedToGenerateHMAC ''SHA-256''"
  by (auto simp add: hmacSha256_def generateHMAC_def split: option.splits)


lemma js_le_0_iff: "js_le x (Num 0) \<longleftrightarrow> x = NegInfinity \<or> (\<exists>r\<le>0. x = Fin r)"
  by (cases x) auto

lemma valid_digits_iff: "\<not> (js_le d (Num 0) \<or> \<not> isInteger d) \<longleftrightarrow> (\<exists>n>0. d = Num n)"
  by (auto simp add: isInteger_iff)

lemma utils_generateTOTPWithT_Inr:
  "utils_generateTOTPWithT P s T p d = Inr code \<longleftrightarrow>
     s \<noteq> [] \<and> \<not> js_le p (Num 0) \<and> (\<exists>n>0. d = Num n) \<and> T \<noteq> NaN \<and>
     (\<exists>key mac. base32Decode P s ''RFC4648'' = Some key \<and>
        subtle_hmac P ''SHA-1'' key (TBytes T) = Some mac \<and>
        offset_of mac + 4 \<le> length mac \<and> digits_nat d \<le> max_string_length P \<and>
        code = otp_string (truncate_loop mac (offset_of mac)) (digits_nat d))"
  unfolding utils_generateTOTPWithT_def rethrow_Inr utils_generateTOTPWithT_try_def
    valid_digits_iff [symmetric]
  by (auto simp add: isNaN_def Let_def hmacSha1_Inr hmacSha1_Inl otp_padded_def
      split: option.splits sum.splits)

lemma utils_generateTOTP_Inr:
  "utils_generateTOTP P now s p d = Inr code \<longleftrightarrow>
     s \<noteq> [] \<and> \<not> js_le p (Num 0) \<and> (\<exists>n>0. d = Num n) \<and>
     (\<exists>key mac. base32Decode P s ''RFC4648'' = Some key \<and>
        subtle_hmac P ''SHA-1'' key (TBytes (floor_div (Num now) (js_mul p (Num 1000)))) = Some mac \<and>
        offset_of mac + 4 \<le> length mac \<and> digits_nat d \<le> max_string_length P \<and>
        code = otp_string (truncate_loop mac (offset_of mac)) (digits_nat d))"
  unfolding utils_generateTOTP_def rethrow_Inr utils_generateTOTP_try_def
    valid_digits_iff [symmetric]
  by (auto simp add: Let_def hmacSha1_Inr hmacSha1_Inl otp_padded_def
      split: option.splits sum.splits)

lemma index_generateTOTPWithT_Inr:
  "index_generateTOTPWithT P s T p d = Inr code \<longleftrightarrow>
     s \<noteq> [] \<and> T \<noteq> NaN \<and> d \<le> max_string_length P \<and>
     (\<exists>key mac. base32Decode P s ''RFC4648'' = Some key \<and>
        subtle_hmac P ''SHA-256'' key (TBytes T) = Some mac \<and>
        code = otp_string (truncate_loop mac (offset_of mac)) d)"
  unfolding index_generateTOTPWithT_def rethrow_Inr index_generateTOTPWithT_try_def
  by (auto simp add: isNaN_def Let_def hmacSha256_Inr hmacSha256_Inl otp_padded_def
      split: option.splits sum.splits)

lemma index_generateTOTP_Inr:
  "index_generateTOTP P now s p d = Inr code \<longleftrightarrow>
     s \<noteq> [] \<and> d \<le> max_string_length P \<and>
     (\<exists>key mac. base32Decode P s ''RFC4648'' = Some key \<and>
        subtle_hmac P ''SHA-256'' key (TBytes (floor_div (Num now) (js_mul p (Num 1000)))) = Some mac \<and>
        code = otp_string (truncate_loop mac (offset_of mac)) d)"
  unfolding index_generateTOTP_def rethrow_Inr index_generateTOTP_try_def
  by (auto simp add: Let_def hmacSha256_Inr hmacSha256_Inl otp_padded_def
      split: option.splits sum.splits)

section \<open>The window loop\<close>

text \<open>
  Below \<open>2 ^ 53\<close> the increment \<open>t++\<close> is exact, and the loop visits the integers from
  its start to the window in order.
\<close>

lemma verify_loop_finite:
  assumes "w < 2 ^ 53"
  shows "- (2 ^ 53) \<le> k \<Longrightarrow> verify_loop g u (Num w) (Num k) = Some (scan g u [k..w])"
proof (induction "nat (w + 1 - k)" arbitrary: k)
  case 0
  then have "w < k" by simp
  then show ?case by (subst verify_loop.simps) simp
next
  case (Suc n)
  then have le: "k \<le> w" and n: "n = nat (w + 1 - (k + 1))" by simp_all
  have up: "[k..w] = k # [k + 1..w]" using le by (simp add: upto_rec1)
  have "\<bar>k + 1\<bar> \<le> 2 ^ 53" using le assms Suc.prems by simp
  then have inc: "js_add (Num k) (Num 1) = Num (k + 1)" by (rule js_add_Num)
  have k1: "- (2 ^ 53) \<le> k + 1" using Suc.prems by simp
  show ?case
    by (subst verify_loop.simps) (simp add: le up inc Suc.hyps(1) [OF n k1] split: sum.splits)
qed



lemma verify_loop_Infinity_decided:
  "g NegInfinity = Inl e \<Longrightarrow> verify_loop g u Infinity NegInfinity = Some (Inl e)"
  "g NegInfinity = Inr u \<Longrightarrow> verify_loop g u Infinity NegInfinity = Some (Inr True)"
  by (subst verify_loop.simps, simp)+



lemma scan_True_D: "scan g u ks = Inr True \<Longrightarrow> \<exists>k\<in>set ks. g (Num k) = Inr u"
  by (induction ks) (auto split: sum.splits if_splits)

lemma scan_Inl_D: "scan g u ks = Inl e \<Longrightarrow> \<exists>k\<in>set ks. g (Num k) = Inl e"
  by (induction ks) (auto split: sum.splits if_splits)

lemma scan_all_ok:
  "\<forall>k\<in>set ks. \<exists>c. g (Num k) = Inr c \<Longrightarrow> scan g u ks = Inr (\<exists>k\<in>set ks. g (Num k) = Inr u)"
  by (induction ks) (auto split: sum.splits)





lemma utils_verifyTOTP_try_step:
  "utils_verifyTOTP_try P now s u p d window =
     (if s = [] then Some (Inl InvalidSecret)
      else if js_le p (Num 0) then Some (Inl InvalidPeriod)
      else if js_le d (Num 0) \<or> \<not> isInteger d then Some (Inl InvalidDigits)
      else if u = [] then Some (Inl InvalidOTP)
      else verify_loop (\<lambda>t. utils_generateTOTPWithT P s (utils_step now p t) p d) u window (js_neg window))"
  by (simp add: utils_verifyTOTP_try_def utils_step_def Let_def)

lemma index_verifyTOTP_try_step:
  "index_verifyTOTP_try P now s u p n window =
     (if s = [] then Some (Inl InvalidSecret)
      else if u = [] then Some (Inl InvalidOTP)
      else verify_loop (\<lambda>t. index_generateTOTPWithT P s (index_step now p t) p n) u window (js_neg window))"
  by (simp add: index_verifyTOTP_try_def index_step_def Let_def)

lemma catch_false_simps:
  "catch_false None = None"
  "catch_false (Some (Inl e)) = Some False"
  "catch_false (Some (Inr b)) = Some b"
  by (simp_all add: catch_false_def)


section \<open>The stub platform\<close>

lemma replicate_numeral_eval: "replicate (numeral k) x = x # replicate (pred_numeral k) x"
  by (simp add: numeral_eq_Suc)

lemma word_of_bytes:
  fixes w :: "32 word"
  shows "push_bit 24 (ucast (ucast (drop_bit 24 w) :: byte)) OR
         push_bit 16 (ucast (ucast (drop_bit 16 w) :: byte)) OR
         push_bit 8 (ucast (ucast (drop_bit 8 w) :: byte)) OR ucast (ucast w :: byte) = w"
    (is "?l = w")
proof (rule bit_word_eqI)
  fix n
  assume "n < LENGTH(32)"
  then have n: "n < 32" by simp
  consider "n < 8" | "8 \<le> n" "n < 16" | "16 \<le> n" "n < 24" | "24 \<le> n"
    by linarith
  then show "bit ?l n \<longleftrightarrow> bit w n"
    by cases (use n in \<open>auto simp add: bit_simps\<close>)
qed

lemma stub_mac:
  "offset_of (drop 4 (TBytes T) @ replicate 16 0) = 0"
  "truncate_loop (drop 4 (TBytes T) @ replicate 16 0) 0 = ToUint32 T"
  "length (drop 4 (TBytes T) @ replicate 16 0) = 20"
proof -
  show "offset_of (drop 4 (TBytes T) @ replicate 16 0) = 0"
    by (simp add: offset_of_def js_at_def TBytes_closed replicate_numeral_eval)
  show "truncate_loop (drop 4 (TBytes T) @ replicate 16 0) 0 = ToUint32 T"
    by (simp add: truncate_loop_closed TBytes_closed word_of_bytes)
  show "length (drop 4 (TBytes T) @ replicate 16 0) = 20"
    by (simp add: TBytes_closed)
qed

lemma stub_decode:
  "base32Decode stub_platform ''JBSWY3DPEHPK3PXP'' v = Some [72, 101, 108, 108, 111, 33, 222, 173, 190, 239]"
  by (simp add: stub_platform_def)

lemma stub_hmac:
  "subtle_hmac stub_platform a key data = (if key = [] then None else Some (drop 4 data @ replicate 16 0))"
  by (simp add: stub_platform_def)

lemma stub_limit: "max_string_length stub_platform = 536870888"
  by (simp add: stub_platform_def)

lemma stub_utils_generateTOTPWithT:
  assumes "\<not> js_le p (Num 0)" "0 < d" "T \<noteq> NaN" "d \<le> 536870888"
  shows "utils_generateTOTPWithT stub_platform ''JBSWY3DPEHPK3PXP'' T p (Num d)
           = Inr (otp_string (ToUint32 T) (nat d))"
  using assms
  by (simp add: utils_generateTOTPWithT_def utils_generateTOTPWithT_try_def rethrow_def
      isNaN_def stub_decode hmacSha1_def generateHMAC_def stub_hmac stub_mac otp_padded_def
      stub_limit)

lemma stub_index_generateTOTPWithT:
  assumes "T \<noteq> NaN" "d \<le> 536870888"
  shows "index_generateTOTPWithT stub_platform ''JBSWY3DPEHPK3PXP'' T p d
           = Inr (otp_string (ToUint32 T) d)"
  using assms
  by (simp add: index_generateTOTPWithT_def index_generateTOTPWithT_try_def rethrow_def
      isNaN_def stub_decode hmacSha256_def generateHMAC_def stub_hmac stub_mac otp_padded_def
      stub_limit)

lemma stub_utils_generateTOTP:
  assumes "\<not> js_le p (Num 0)" "0 < d" "d \<le> 536870888"
  shows "utils_generateTOTP stub_platform now ''JBSWY3DPEHPK3PXP'' p (Num d)
           = Inr (otp_string (ToUint32 (floor_div (Num now) (js_mul p (Num 1000)))) (nat d))"
  using assms
  by (simp add: utils_generateTOTP_def utils_generateTOTP_try_def rethrow_def
      stub_decode hmacSha1_def generateHMAC_def stub_hmac stub_mac otp_padded_def stub_limit)

lemma stub_index_generateTOTP:
  "d \<le> 536870888 \<Longrightarrow>
   index_generateTOTP stub_platform now ''JBSWY3DPEHPK3PXP'' p d
     = Inr (otp_string (ToUint32 (floor_div (Num now) (js_mul p (Num 1000)))) d)"
  by (simp add: index_generateTOTP_def index_generateTOTP_try_def rethrow_def
      stub_decode hmacSha256_def generateHMAC_def stub_hmac stub_mac otp_padded_def stub_limit)

text \<open>Unfolding \<open>toString\<close> on literals only: on a variable it would not stop.\<close>

lemma toString_eval:
  "toString 0 = ''0''"
  "toString (Suc 0) = ''1''"
  "toString (numeral k) =
     (if numeral k < (10::nat) then [digit_char (numeral k)]
      else toString (numeral k div 10) @ [digit_char (numeral k mod 10)])"
  by (simp_all add: toString.simps [of 0] toString.simps [of "Suc 0"] toString.simps [of "numeral k"]
      digit_char_def)

lemmas otp_string_eval =
  otp_string_def otp_of_def padStart_def toString_eval digit_char_def replicate_numeral_eval

section \<open>Steps and counters\<close>

lemma utils_generateTOTPWithT_cong_T:
  assumes "TBytes T1 = TBytes T2" "T1 \<noteq> NaN" "T2 \<noteq> NaN"
  shows "utils_generateTOTPWithT P s T1 p d = utils_generateTOTPWithT P s T2 p d"
  unfolding utils_generateTOTPWithT_def utils_generateTOTPWithT_try_def isNaN_def assms(1)
  using assms(2,3) by simp

lemma index_generateTOTPWithT_cong_T:
  assumes "TBytes T1 = TBytes T2" "T1 \<noteq> NaN" "T2 \<noteq> NaN"
  shows "index_generateTOTPWithT P s T1 p n = index_generateTOTPWithT P s T2 p n"
  unfolding index_generateTOTPWithT_def index_generateTOTPWithT_try_def isNaN_def assms(1)
  using assms(2,3) by simp

text \<open>
  Where every intermediate value of a step computation stays below \<open>2 ^ 53\<close>, nothing is
  rounded and the step is \<open>floor(now / (p * 1000)) + t\<close>. The computation of \<open>index.ts\<close>
  has the larger intermediate values.
\<close>

lemma utils_step_exact:
  assumes p: "0 < p" "p * 1000 < 2 ^ 53"
    and b: "\<bar>now\<bar> < 2 ^ 53" "\<bar>now div (p * 1000) + t\<bar> \<le> 2 ^ 53"
  shows "utils_step now (Num p) (Num t) = Num (now div (p * 1000) + t)"
proof -
  have m: "js_mul (Num p) (Num 1000) = Num (p * 1000)"
    using p by (intro js_mul_Num) simp
  have q: "floor_div (Num now) (Num (p * 1000)) = Num (now div (p * 1000))"
    using p b(1) by (intro floor_div_Num) simp_all
  have s: "js_add (Num (now div (p * 1000))) (Num t) = Num (now div (p * 1000) + t)"
    using b(2) by (rule js_add_Num)
  show ?thesis by (simp only: utils_step_def m q s)
qed

lemma index_step_exact:
  assumes p: "0 < p" "p * 1000 < 2 ^ 53"
    and b: "\<bar>now\<bar> + \<bar>t\<bar> * (p * 1000) < 2 ^ 53"
  shows "index_step now (Num p) (Num t) = Num (now div (p * 1000) + t)"
proof -
  have m: "js_mul (Num p) (Num 1000) = Num (p * 1000)"
    using p by (intro js_mul_Num) simp
  have t2: "\<bar>t * p\<bar> \<le> \<bar>t\<bar> * (p * 1000)" using p by (simp add: abs_mult)
  have t3: "\<bar>t * p * 1000\<bar> = \<bar>t\<bar> * (p * 1000)" using p by (simp add: abs_mult)
  have "\<bar>t * p\<bar> \<le> 2 ^ 53" using t2 b by linarith
  then have a1: "js_mul (Num t) (Num p) = Num (t * p)" by (rule js_mul_Num)
  have "\<bar>t * p * 1000\<bar> \<le> 2 ^ 53" using t3 b by linarith
  then have a2: "js_mul (Num (t * p)) (Num 1000) = Num (t * p * 1000)" by (rule js_mul_Num)
  have a3': "\<bar>now + t * p * 1000\<bar> < 2 ^ 53" using t3 b by linarith
  then have a3: "js_add (Num now) (Num (t * p * 1000)) = Num (now + t * p * 1000)"
    by (intro js_add_Num) simp
  have a4: "floor_div (Num (now + t * p * 1000)) (Num (p * 1000)) = Num ((now + t * p * 1000) div (p * 1000))"
    using p a3' by (intro floor_div_Num) simp_all
  have "now + t * p * 1000 = now + t * (p * 1000)" by simp
  then have a5: "(now + t * p * 1000) div (p * 1000) = now div (p * 1000) + t"
    using p by (simp only: div_mult_self2 [of "p * 1000" now t]) simp
  show ?thesis by (simp only: index_step_def m a1 a2 a3 a4 a5)
qed

text \<open>
  The bound of \<open>index_step_exact\<close> implies the one of \<open>utils_step_exact\<close>: in that range
  the two files compute the same step.
\<close>

lemma step_forms_agree:
  assumes "0 < p" "p * 1000 < 2 ^ 53" "\<bar>now\<bar> + \<bar>t\<bar> * (p * 1000) < 2 ^ 53"
  shows "index_step now (Num p) (Num t) = utils_step now (Num p) (Num t)"
proof -
  have t1: "\<bar>t\<bar> \<le> \<bar>t\<bar> * (p * 1000)" using assms(1) by (simp add: mult_le_cancel_left1)
  have n1: "\<bar>now div (p * 1000)\<bar> \<le> \<bar>now\<bar>" using assms(1) by (intro abs_div_le_abs) simp
  have "\<bar>now\<bar> < 2 ^ 53" "\<bar>now div (p * 1000) + t\<bar> \<le> 2 ^ 53"
    using assms(3) t1 n1 by linarith+
  then show ?thesis
    using index_step_exact [OF assms] utils_step_exact [OF assms(1,2)] by simp
qed

lemma length_TBytes: "length (TBytes T) = 8"
  by (simp add: TBytes_closed)


section \<open>The bound check and the validation of \<open>utils.ts\<close>\<close>

lemma utils_reads_in_bounds:
  assumes "offset + 3 < length hmacArray" "i < 4"
  shows "js_at hmacArray (int (offset + i)) = Some (hmacArray ! (offset + i))"
  using assms unfolding js_at_nat by simp

lemma utils_bound_check:
  assumes "s \<noteq> []" "\<not> js_le p (Num 0)" "0 < n" "T \<noteq> NaN"
      and "base32Decode P s ''RFC4648'' = Some key"
      and "subtle_hmac P ''SHA-1'' key (TBytes T) = Some mac"
  shows "utils_generateTOTPWithT_try P s T p (Num n) =
           (if offset_of mac + 4 \<le> length mac
            then otp_padded P (truncate_loop mac (offset_of mac)) (nat n)
            else Inl HMACArrayTooSmall)"
    and "offset_of mac = (if mac = [] then 0 else unat (last mac) mod 16)"
  using assms
  by (auto simp add: utils_generateTOTPWithT_try_def isNaN_def hmacSha1_def
      generateHMAC_def Let_def offset_of_Nil offset_of_last)

text \<open>
  A MAC of at least 19 bytes (the offset is at most 15) passes the check: with a hash of
  the right size \<open>generateTOTPWithT\<close> of \<open>utils.ts\<close> returns a code for every valid input.
\<close>

lemma utils_generateTOTPWithT_succeeds:
  assumes "s \<noteq> []" "\<not> js_le p (Num 0)" "0 < n" "T \<noteq> NaN"
      and "base32Decode P s ''RFC4648'' = Some key"
      and "subtle_hmac P ''SHA-1'' key (TBytes T) = Some mac"
      and "19 \<le> length mac" "nat n \<le> max_string_length P"
  shows "utils_generateTOTPWithT P s T p (Num n)
           = Inr (otp_string (truncate_loop mac (offset_of mac)) (nat n))"
proof -
  have "offset_of mac + 4 \<le> length mac"
    using offset_of_less [of mac] assms(7) by simp
  then show ?thesis
    using utils_bound_check(1) [OF assms(1-6)] assms(8)
    by (simp add: utils_generateTOTPWithT_def rethrow_def otp_padded_def)
qed

lemma utils_rejects_empty_secret:
  "utils_generateTOTP_try P now [] p d = Inl InvalidSecret"
  "utils_generateTOTPWithT_try P [] T p d = Inl InvalidSecret"
  by (simp_all add: utils_generateTOTP_try_def utils_generateTOTPWithT_try_def)

lemma utils_rejects_period:
  assumes "s \<noteq> []" "p = NegInfinity \<or> (\<exists>r\<le>0. p = Fin r)"
  shows "utils_generateTOTP_try P now s p d = Inl InvalidPeriod"
    and "utils_generateTOTPWithT_try P s T p d = Inl InvalidPeriod"
  using assms
  by (auto simp add: utils_generateTOTP_try_def utils_generateTOTPWithT_try_def)

lemma utils_rejects_digits:
  assumes "s \<noteq> []" "\<not> js_le p (Num 0)" "\<not> (\<exists>n>0. d = Num n)"
  shows "utils_generateTOTP_try P now s p d = Inl InvalidDigits"
    and "utils_generateTOTPWithT_try P s T p d = Inl InvalidDigits"
  using assms valid_digits_iff [of d]
  by (auto simp add: utils_generateTOTP_try_def utils_generateTOTPWithT_try_def)

lemma utils_rejects_empty_key:
  assumes "s \<noteq> []" "\<not> js_le p (Num 0)" "0 < n" "T \<noteq> NaN"
      and "base32Decode P s ''RFC4648'' = Some []"
      and "\<And>data. subtle_hmac P ''SHA-1'' [] data = None"
  shows "utils_generateTOTP_try P now s p (Num n) = Inl (FailedToGenerateHMAC ''SHA-1'')"
    and "utils_generateTOTPWithT_try P s T p (Num n) = Inl (FailedToGenerateHMAC ''SHA-1'')"
  using assms
  by (simp_all add: utils_generateTOTP_try_def utils_generateTOTPWithT_try_def isNaN_def hmacSha1_def generateHMAC_def)

text \<open>
  A secret that decodes to no bytes at all passes the checks of the code; it is the
  platform's key import that rejects it.
\<close>

lemma utils_empty_key_example:
  "utils_generateTOTPWithT_try stub_platform ''A'' (Num 1) (Num 30) (Num 6)
     = Inl (FailedToGenerateHMAC ''SHA-1'')"
  by (simp add: utils_generateTOTPWithT_try_def isNaN_def hmacSha1_def
      generateHMAC_def stub_platform_def)

lemma utils_error_is_rethrown:
  "utils_generateTOTP_try P now s p d = Inl e \<Longrightarrow> utils_generateTOTP P now s p d = Inl FailedToGenerateTOTP"
  "utils_generateTOTPWithT_try P s T p d = Inl e \<Longrightarrow> utils_generateTOTPWithT P s T p d = Inl FailedToGenerateTOTP"
  by (simp_all add: utils_generateTOTP_def utils_generateTOTPWithT_def rethrow_def)

section \<open>Helpers for the window\<close>

lemma utils_generateTOTPWithT_not_Nil: "utils_generateTOTPWithT P s T p d \<noteq> Inr []"
  by (simp add: utils_generateTOTPWithT_Inr otp_string_not_Nil otp_string_not_Nil [THEN not_sym])

lemma index_generateTOTPWithT_not_Nil: "index_generateTOTPWithT P s T p n \<noteq> Inr []"
  by (simp add: index_generateTOTPWithT_Inr otp_string_not_Nil otp_string_not_Nil [THEN not_sym])

lemma catch_false_scan_all_ok:
  assumes "\<forall>k\<in>{a..b}. \<exists>c. g (Num k) = Inr c" and "- (2 ^ 53) \<le> a" "b < 2 ^ 53"
  shows "catch_false (verify_loop g u (Num b) (Num a)) = Some (\<exists>k\<in>{a..b}. g (Num k) = Inr u)"
  using scan_all_ok [of "[a..b]" g u] assms(1)
  by (simp add: verify_loop_finite [OF assms(3,2)] catch_false_simps)

text \<open>With an infinite period the derivation of \<open>index.ts\<close> is \<open>NaN\<close>.\<close>

lemma step_forms_infinite_period:
  "index_step now Infinity (Num t) = NaN"
  "\<bar>t\<bar> \<le> 2 ^ 53 \<Longrightarrow> utils_step now Infinity (Num t) = Num t"
  by (simp_all add: index_step_def utils_step_def signed_infinity_def js_add_Num)

section \<open>Codes\<close>

lemma otp_string_spec:
  assumes "(unat (last mac) AND 15) + 4 \<le> length mac"
  shows "otp_string (truncate_loop mac (offset_of mac)) n
           = padStart (toString (spec_truncate mac n)) n CHR ''0''"
    and "offset_of mac + 4 \<le> length mac"
proof -
  from assms have ne: "mac \<noteq> []" by auto
  with assms show o: "offset_of mac + 4 \<le> length mac"
    by (simp add: offset_of_last nat_and_15)
  show "otp_string (truncate_loop mac (offset_of mac)) n
           = padStart (toString (spec_truncate mac n)) n CHR ''0''"
    by (simp add: otp_string_def otp_of_spec [OF o])
qed

lemma rfc4226_example: "spec_truncate rfc4226_example_mac 6 = 872921"
  by (simp add: spec_truncate_def rfc4226_example_mac_def nat_and_15 nat_and_mask31 be_uint_def)

lemma otp_string_spec_code: "0 < n \<Longrightarrow> spec_code (otp_string tr n) n"
  unfolding spec_code_def
proof (intro conjI)
  assume n: "0 < n"
  show "length (otp_string tr n) = n" using n by (rule otp_string_length)
  show "list_all is_digit (otp_string tr n)"
    by (simp add: list_all_iff otp_string_digits)
  show "decimal_value (otp_string tr n) < 10 ^ n"
    by (simp add: otp_string_value otp_of_less)
  show "otp_string tr n = padStart (toString (decimal_value (otp_string tr n))) n CHR ''0''"
    by (simp add: otp_string_value) (simp add: otp_string_def)
qed

text \<open>Whatever the arguments: a code that is returned has the format.\<close>

lemma returned_code_format:
  "(utils_generateTOTP P now s p d = Inr code \<or> utils_generateTOTPWithT P s T p d = Inr code \<longrightarrow>
      d = Num (int (digits_nat d)) \<and> 0 < digits_nat d \<and> spec_code code (digits_nat d)) \<and>
   (0 < n \<and> (index_generateTOTP P now s p n = Inr code \<or> index_generateTOTPWithT P s T p n = Inr code) \<longrightarrow>
      spec_code code n)"
  by (auto simp add: utils_generateTOTP_Inr utils_generateTOTPWithT_Inr
      index_generateTOTP_Inr index_generateTOTPWithT_Inr otp_string_spec_code)

section \<open>The counter encoding below \<open>2 ^ 32\<close>\<close>

lemma byte_of_drop_bit:
  assumes "n < 2 ^ 32"
  shows "ucast (drop_bit k (word_of_int (int n) :: 32 word)) = (of_nat (n div 2 ^ k) :: byte)"
proof (rule bit_word_eqI)
  fix i
  assume "i < LENGTH(8)"
  then have i: "i < 8" by simp
  have "bit n (k + i) \<Longrightarrow> k + i < 32"
  proof (rule ccontr)
    assume b: "bit n (k + i)" and "\<not> k + i < 32"
    then have "(2::nat) ^ 32 \<le> 2 ^ (k + i)" by (intro power_increasing) auto
    with assms have "n < 2 ^ (k + i)" by linarith
    then have "n div 2 ^ (k + i) = 0" by simp
    with b show False by (simp add: bit_iff_odd)
  qed
  then show "bit (ucast (drop_bit k (word_of_int (int n) :: 32 word)) :: byte) i
          \<longleftrightarrow> bit (of_nat (n div 2 ^ k) :: byte) i"
    using i by (auto simp add: bit_simps simp flip: drop_bit_eq_div)
qed

lemma TBytes_spec_counter_bytes:
  assumes "0 \<le> T" "T < 2 ^ 32"
  shows "TBytes (Num T) = spec_counter_bytes (nat T)"
proof -
  from assms obtain n where n: "T = int n" "n < 2 ^ 32"
    by (metis nat_less_numeral_power_cancel_iff nonneg_int_cases nat_int)
  have z: "n div 256 ^ 7 = 0" "n div 256 ^ 6 = 0" "n div 256 ^ 5 = 0" "n div 256 ^ 4 = 0"
    using n(2) by simp_all
  have d: "(256::nat) ^ 3 = 2 ^ 24" "(256::nat) ^ 2 = 2 ^ 16" "(256::nat) = 2 ^ 8" by simp_all
  have "spec_counter_bytes n =
      [0, 0, 0, 0, of_nat (n div 2 ^ 24), of_nat (n div 2 ^ 16), of_nat (n div 2 ^ 8), of_nat (n div 2 ^ 0)]"
    unfolding spec_counter_bytes_def using z by (simp add: upt_rec)
  then show ?thesis
    using byte_of_drop_bit [OF n(2), of 24] byte_of_drop_bit [OF n(2), of 16]
      byte_of_drop_bit [OF n(2), of 8] byte_of_drop_bit [OF n(2), of 0]
    by (simp add: TBytes_closed n(1))
qed



section \<open>Evaluating the double-precision model\<close>

lemma exponent_eval:
  "exponent_up (numeral a / numeral b) =
     (if (2::rat) \<le> numeral a / numeral b then exponent_up (numeral a / numeral b / 2) + 1 else 0)"
  "exponent_up (numeral a) =
     (if (2::rat) \<le> numeral a then exponent_up (numeral a / 2) + 1 else 0)"
  "exponent_up 1 = 0"
  "exponent_down (numeral a / numeral b) =
     (if (0::rat) < numeral a / numeral b \<and> numeral a / numeral b < (1::rat)
      then exponent_down (2 * (numeral a / numeral b)) - 1 else 0)"
  "exponent_down (1 / numeral b) =
     (if (0::rat) < 1 / numeral b \<and> 1 / numeral b < (1::rat)
      then exponent_down (2 * (1 / numeral b)) - 1 else 0)"
  "exponent_down (numeral a) = 0"
  by (simp_all add: exponent_up.simps [of "numeral a / numeral b"] exponent_up.simps [of "numeral a"]
      exponent_up.simps [of 1] exponent_down.simps [of "numeral a / numeral b"]
      exponent_down.simps [of "1 / numeral b"] exponent_down.simps [of "numeral a"])

lemma floor_eval:
  "\<lfloor>numeral a / numeral b :: rat\<rfloor> = numeral a div numeral b"
  "\<lfloor>- (numeral a / numeral b) :: rat\<rfloor> = (- numeral a) div numeral b"
  using floor_divide_of_int_eq [of "numeral a" "numeral b", where ?'a = rat]
    floor_divide_of_int_eq [of "- numeral a" "numeral b", where ?'a = rat]
  by simp_all

lemmas dbl_eval = floor_eval to_double_def exponent_def exponent_eval round_half_even_def
  dbl_mul_def dbl_div_def dbl_add_def Let_def

text \<open>The literal \<open>0.1\<close>, and \<open>0.1 * 1000\<close>, which is \<open>100\<close> exactly.\<close>

lemma double_tenth: "to_double (1 / 10) = 3602879701896397 / 36028797018963968"
  by (simp add: dbl_eval)

lemma double_tenth_times_1000: "dbl_mul (3602879701896397 / 36028797018963968) 1000 = 100"
  by (simp add: dbl_eval)

text \<open>\<open>-3 * 0.1\<close> is \<open>-0.30000000000000004\<close>, and the error survives the next two operations.\<close>

lemma double_minus_3_times_tenth:
  "dbl_mul (- 3) (3602879701896397 / 36028797018963968) = - (1351079888211149 / 4503599627370496)"
  by (simp add: dbl_eval)

lemma double_minus_3_tenths_times_1000:
  "dbl_mul (- (1351079888211149 / 4503599627370496)) 1000 = - (5277655813324801 / 17592186044416)"
  by (simp add: dbl_eval)

lemma double_add_0:
  "dbl_add 0 (- (5277655813324801 / 17592186044416)) = - (5277655813324801 / 17592186044416)"
  by (simp add: dbl_eval)

lemma double_quotient:
  "dbl_div (- (5277655813324801 / 17592186044416)) 100 = - (6755399441055745 / 2251799813685248)"
  by (simp add: dbl_eval)

lemma index_step_double_example: "index_step_double 0 (to_double (1 / 10)) (- 3) = Some (- 4)"
  by (simp add: index_step_double_def double_tenth double_tenth_times_1000
      double_minus_3_times_tenth double_minus_3_tenths_times_1000 double_add_0 double_quotient
      floor_eval)

lemma utils_step_double_example: "utils_step_double 0 (to_double (1 / 10)) (- 3) = Some (- 3)"
  by (simp add: utils_step_double_def double_tenth double_tenth_times_1000 dbl_eval)

text \<open>
  On integers, with every intermediate value below \<open>2 ^ 53\<close>, both computations are
  exact and give the step \<open>floor(now / (p * 1000)) + t\<close>.
\<close>

lemma dbl_mul_of_int:
  "\<bar>a * b\<bar> \<le> 2 ^ 53 \<Longrightarrow> dbl_mul (of_int a) (of_int b) = of_int (a * b)"
  using to_double_of_int [of "a * b"] by (simp add: dbl_mul_def)

lemma dbl_add_of_int:
  "\<bar>a + b\<bar> \<le> 2 ^ 53 \<Longrightarrow> dbl_add (of_int a) (of_int b) = of_int (a + b)"
  using to_double_of_int [of "a + b"] by (simp add: dbl_add_def)

lemma floor_dbl_div_of_int:
  "m \<noteq> 0 \<Longrightarrow> \<bar>a\<bar> < 2 ^ 53 \<Longrightarrow> \<lfloor>dbl_div (of_int a) (of_int m)\<rfloor> = a div m"
  by (simp add: dbl_div_def floor_to_double_quotient)

lemma step_double_of_int:
  assumes p: "0 < p" "p * 1000 \<le> 2 ^ 53"
    and b: "\<bar>now\<bar> + \<bar>t\<bar> * (p * 1000) < 2 ^ 53"
  shows "utils_step_double (of_int now) (of_int p) (of_int t) = Some (of_int (now div (p * 1000) + t))"
    and "index_step_double (of_int now) (of_int p) (of_int t) = Some (of_int (now div (p * 1000) + t))"
proof -
  have m: "dbl_mul (of_int p) 1000 = of_int (p * 1000)"
    using dbl_mul_of_int [of p 1000] p by simp
  have m0: "(of_int (p * 1000) :: rat) \<noteq> 0" using p by simp
  have t1: "\<bar>t\<bar> \<le> \<bar>t\<bar> * (p * 1000)" using p by (simp add: mult_le_cancel_left1)
  have t2: "\<bar>t * p\<bar> \<le> \<bar>t\<bar> * (p * 1000)" using p by (simp add: abs_mult)
  have t3: "\<bar>t * p * 1000\<bar> = \<bar>t\<bar> * (p * 1000)" using p by (simp add: abs_mult)
  have n1: "\<bar>now div (p * 1000)\<bar> \<le> \<bar>now\<bar>" using p by (intro abs_div_le_abs) simp
  have now: "\<bar>now\<bar> < 2 ^ 53" using b t1 by linarith
  have q: "\<lfloor>dbl_div (of_int now) (of_int (p * 1000))\<rfloor> = now div (p * 1000)"
    using p now by (intro floor_dbl_div_of_int) simp_all
  have "\<bar>now div (p * 1000) + t\<bar> \<le> 2 ^ 53" using n1 t1 b by linarith
  then have s: "dbl_add (of_int (now div (p * 1000))) (of_int t) = of_int (now div (p * 1000) + t)"
    by (rule dbl_add_of_int)
  show "utils_step_double (of_int now) (of_int p) (of_int t) = Some (of_int (now div (p * 1000) + t))"
    unfolding utils_step_double_def m q using m0 s by (simp only: if_False)
  have "\<bar>t * p\<bar> \<le> 2 ^ 53" using t2 b by linarith
  then have a1: "dbl_mul (of_int t) (of_int p) = of_int (t * p)" by (rule dbl_mul_of_int)
  have "\<bar>t * p * 1000\<bar> \<le> 2 ^ 53" using t3 b by linarith
  then have a2: "dbl_mul (of_int (t * p)) 1000 = of_int (t * p * 1000)"
    using dbl_mul_of_int [of "t * p" 1000] by simp
  have a3': "\<bar>now + t * p * 1000\<bar> < 2 ^ 53" using t3 b by linarith
  then have a3: "dbl_add (of_int now) (of_int (t * p * 1000)) = of_int (now + t * p * 1000)"
    by (intro dbl_add_of_int) simp
  have a4: "\<lfloor>dbl_div (of_int (now + t * p * 1000)) (of_int (p * 1000))\<rfloor> = (now + t * p * 1000) div (p * 1000)"
    using p a3' by (intro floor_dbl_div_of_int) simp_all
  have "now + t * p * 1000 = now + t * (p * 1000)" by simp
  then have a5: "(now + t * p * 1000) div (p * 1000) = now div (p * 1000) + t"
    using p by (simp only: div_mult_self2 [of "p * 1000" now t]) simp
  show "index_step_double (of_int now) (of_int p) (of_int t) = Some (of_int (now div (p * 1000) + t))"
    unfolding index_step_double_def m a1 a2 a3 a4 a5 using m0 by (simp only: if_False)
qed


section \<open>The window of the verifiers\<close>

text \<open>
  In the range where the step computation is exact, \<open>verifyTOTP\<close> of \<open>utils.ts\<close> answers
  \<open>true\<close> exactly for the codes of the steps \<open>floor(now / (p * 1000)) + t\<close> with
  \<open>-w <= t <= w\<close>, and so does \<open>verifyTOTP\<close> of \<open>index.ts\<close> in the smaller range where
  its own step computation is exact.
\<close>

lemma utils_verifyTOTP_window:
  assumes p: "0 < p" "p * 1000 < 2 ^ 53"
    and b: "\<bar>now\<bar> < 2 ^ 53" "\<bar>now div (p * 1000)\<bar> + \<bar>w\<bar> < 2 ^ 53"
    and ok: "\<forall>t\<in>{- w..w}. \<exists>c. utils_generateTOTPWithT P s (Num (now div (p * 1000) + t)) (Num p) d = Inr c"
  shows "utils_verifyTOTP P now s u (Num p) d (Num w) =
           Some (\<exists>t\<in>{- w..w}. utils_generateTOTPWithT P s (Num (now div (p * 1000) + t)) (Num p) d = Inr u)"
proof -
  let ?T = "\<lambda>t. Num (now div (p * 1000) + t)"
  let ?g = "\<lambda>t. utils_generateTOTPWithT P s (utils_step now (Num p) t) (Num p) d"
  have g: "?g (Num k) = utils_generateTOTPWithT P s (?T k) (Num p) d" if "k \<in> {- w..w}" for k
  proof -
    from that have "\<bar>k\<bar> \<le> \<bar>w\<bar>" by auto
    with b(2) have "\<bar>now div (p * 1000) + k\<bar> \<le> 2 ^ 53" by linarith
    then show ?thesis by (simp add: utils_step_exact [OF p b(1)])
  qed
  show ?thesis
  proof (cases "s = [] \<or> js_le d (Num 0) \<or> \<not> isInteger d \<or> u = []")
    case True
    then have never: "utils_generateTOTPWithT P s T (Num p) d \<noteq> Inr u" for T
      using valid_digits_iff [of d]
      by (auto simp add: utils_generateTOTPWithT_Inr otp_string_not_Nil otp_string_not_Nil [THEN not_sym])
    from True p have "utils_verifyTOTP P now s u (Num p) d (Num w) = Some False"
      by (auto simp add: utils_verifyTOTP_def utils_verifyTOTP_try_step catch_false_simps)
    with never show ?thesis by simp
  next
    case False
    with p have "utils_verifyTOTP P now s u (Num p) d (Num w) =
        catch_false (verify_loop ?g u (Num w) (Num (- w)))"
      by (simp add: utils_verifyTOTP_def utils_verifyTOTP_try_step)
    also have "\<dots> = Some (\<exists>k\<in>{- w..w}. ?g (Num k) = Inr u)"
      using ok b(2) by (intro catch_false_scan_all_ok) (simp_all add: g)
    finally show ?thesis by (simp add: g)
  qed
qed

lemma index_verifyTOTP_window:
  assumes p: "0 < p" "p * 1000 < 2 ^ 53"
    and b: "\<bar>now\<bar> + \<bar>w\<bar> * (p * 1000) < 2 ^ 53"
    and ok: "\<forall>t\<in>{- w..w}. \<exists>c. index_generateTOTPWithT P s (Num (now div (p * 1000) + t)) (Num p) n = Inr c"
  shows "index_verifyTOTP P now s u (Num p) n (Num w) =
           Some (\<exists>t\<in>{- w..w}. index_generateTOTPWithT P s (Num (now div (p * 1000) + t)) (Num p) n = Inr u)"
proof -
  let ?T = "\<lambda>t. Num (now div (p * 1000) + t)"
  let ?g = "\<lambda>t. index_generateTOTPWithT P s (index_step now (Num p) t) (Num p) n"
  have w: "\<bar>w\<bar> \<le> \<bar>w\<bar> * (p * 1000)" using p by (simp add: mult_le_cancel_left1)
  have g: "?g (Num k) = index_generateTOTPWithT P s (?T k) (Num p) n" if "k \<in> {- w..w}" for k
  proof -
    from that have "\<bar>k\<bar> \<le> \<bar>w\<bar>" by auto
    then have "\<bar>k\<bar> * (p * 1000) \<le> \<bar>w\<bar> * (p * 1000)" using p by (intro mult_right_mono) simp_all
    with b have "\<bar>now\<bar> + \<bar>k\<bar> * (p * 1000) < 2 ^ 53" by linarith
    then show ?thesis by (simp add: index_step_exact [OF p])
  qed
  show ?thesis
  proof (cases "s = [] \<or> u = []")
    case True
    then have never: "index_generateTOTPWithT P s T (Num p) n \<noteq> Inr u" for T
      by (auto simp add: index_generateTOTPWithT_Inr otp_string_not_Nil otp_string_not_Nil [THEN not_sym])
    from True have "index_verifyTOTP P now s u (Num p) n (Num w) = Some False"
      by (auto simp add: index_verifyTOTP_def index_verifyTOTP_try_step catch_false_simps)
    with never show ?thesis by simp
  next
    case False
    then have "index_verifyTOTP P now s u (Num p) n (Num w) =
        catch_false (verify_loop ?g u (Num w) (Num (- w)))"
      by (simp add: index_verifyTOTP_def index_verifyTOTP_try_step)
    also have "\<dots> = Some (\<exists>k\<in>{- w..w}. ?g (Num k) = Inr u)"
      using ok b w by (intro catch_false_scan_all_ok) (simp_all add: g)
    finally show ?thesis by (simp add: g)
  qed
qed

section \<open>Two runs of the verifiers outside that range\<close>

text \<open>
  The period \<open>0.1\<close> at time \<open>0\<close> with window \<open>3\<close>: \<open>utils.ts\<close> visits the steps \<open>-3\<close> to
  \<open>3\<close>; \<open>index.ts\<close> computes \<open>-4\<close> for the offset \<open>-3\<close> and never visits the step \<open>-3\<close>.
\<close>

lemmas js_num_eval = Num_def js_round_def dbl_eval trunc_def floor_div_def signed_infinity_def

lemma tenth_ms: "js_mul (Fin (to_double (1 / 10))) (Num 1000) = Num 100"
  by (simp add: double_tenth) (simp add: js_num_eval)

lemma index_steps_tenth:
  "index_step 0 (Fin (to_double (1 / 10))) (Num (- 3)) = Num (- 4)"
  "index_step 0 (Fin (to_double (1 / 10))) (Num (- 2)) = Num (- 2)"
  "index_step 0 (Fin (to_double (1 / 10))) (Num (- 1)) = Num (- 1)"
  "index_step 0 (Fin (to_double (1 / 10))) (Num 0) = Num 0"
  "index_step 0 (Fin (to_double (1 / 10))) (Num 1) = Num 1"
  "index_step 0 (Fin (to_double (1 / 10))) (Num 2) = Num 2"
  "index_step 0 (Fin (to_double (1 / 10))) (Num 3) = Num 3"
  by (simp_all add: index_step_def double_tenth) (simp_all add: js_num_eval)

lemma utils_steps_tenth:
  "\<bar>t\<bar> \<le> 2 ^ 53 \<Longrightarrow> utils_step 0 (Fin (to_double (1 / 10))) (Num t) = Num t"
  by (simp add: utils_step_def tenth_ms js_eval)


lemma upto_m3_3: "[- 3..3::int] = [- 3, - 2, - 1, 0, 1, 2, 3]"
  by (subst upto.simps, simp)+

lemma stub_code_word:
  "otp_string (- 4) 8 = ''47483644''"
  "otp_string (- 3) 8 = ''47483645''"
  "otp_string (- 2) 8 = ''47483646''"
  "otp_string (- 1) 8 = ''47483647''"
  "otp_string 0 8 = ''00000000''"
  "otp_string 1 8 = ''00000001''"
  "otp_string 2 8 = ''00000002''"
  "otp_string 3 8 = ''00000003''"
  by (simp_all add: otp_string_eval)

lemma tenth_positive: "\<not> to_double (1 / 10) \<le> 0"
  by (simp add: double_tenth)

lemma small_index:
  "index_verifyTOTP stub_platform 0 ''JBSWY3DPEHPK3PXP'' u (Fin (to_double (1 / 10))) 8 (Num 3) =
     Some (u \<in> {''47483644'', ''47483646'', ''47483647'', ''00000000'', ''00000001'', ''00000002'', ''00000003''})"
proof (cases "u = []")
  case True
  then show ?thesis by (simp add: index_verifyTOTP_def index_verifyTOTP_try_step catch_false_simps)
next
  case False
  let ?g = "\<lambda>t. index_generateTOTPWithT stub_platform ''JBSWY3DPEHPK3PXP''
                   (index_step 0 (Fin (to_double (1 / 10))) t) (Fin (to_double (1 / 10))) 8"
  have g: "?g (Num (- 3)) = Inr ''47483644''" "?g (Num (- 2)) = Inr ''47483646''"
    "?g (Num (- 1)) = Inr ''47483647''" "?g (Num 0) = Inr ''00000000''"
    "?g (Num 1) = Inr ''00000001''" "?g (Num 2) = Inr ''00000002''" "?g (Num 3) = Inr ''00000003''"
    by (simp_all add: index_steps_tenth stub_index_generateTOTPWithT stub_code_word)
  have "verify_loop ?g u (Num 3) (Num (- 3)) = Some (scan ?g u [- 3..3])"
    by (rule verify_loop_finite) simp_all
  also have "\<dots> = Some (scan ?g u [- 3, - 2, - 1, 0, 1, 2, 3])"
    by (simp only: upto_m3_3)
  also have "\<dots> = Some (Inr (u \<in> {''47483644'', ''47483646'', ''47483647'', ''00000000'',
                                    ''00000001'', ''00000002'', ''00000003''}))"
    unfolding scan.simps g by auto
  finally show ?thesis
    using False by (simp add: index_verifyTOTP_def index_verifyTOTP_try_step catch_false_simps)
qed

lemma small_utils:
  "utils_verifyTOTP stub_platform 0 ''JBSWY3DPEHPK3PXP'' u (Fin (to_double (1 / 10))) (Num 8) (Num 3) =
     Some (u \<in> {''47483645'', ''47483646'', ''47483647'', ''00000000'', ''00000001'', ''00000002'', ''00000003''})"
proof (cases "u = []")
  case True
  then show ?thesis
    by (simp add: utils_verifyTOTP_def utils_verifyTOTP_try_step tenth_positive catch_false_simps)
next
  case False
  let ?g = "\<lambda>t. utils_generateTOTPWithT stub_platform ''JBSWY3DPEHPK3PXP''
                   (utils_step 0 (Fin (to_double (1 / 10))) t) (Fin (to_double (1 / 10))) (Num 8)"
  have g: "?g (Num (- 3)) = Inr ''47483645''" "?g (Num (- 2)) = Inr ''47483646''"
    "?g (Num (- 1)) = Inr ''47483647''" "?g (Num 0) = Inr ''00000000''"
    "?g (Num 1) = Inr ''00000001''" "?g (Num 2) = Inr ''00000002''" "?g (Num 3) = Inr ''00000003''"
    by (simp_all add: utils_steps_tenth tenth_positive stub_utils_generateTOTPWithT stub_code_word)
  have "verify_loop ?g u (Num 3) (Num (- 3)) = Some (scan ?g u [- 3..3])"
    by (rule verify_loop_finite) simp_all
  also have "\<dots> = Some (scan ?g u [- 3, - 2, - 1, 0, 1, 2, 3])"
    by (simp only: upto_m3_3)
  also have "\<dots> = Some (Inr (u \<in> {''47483645'', ''47483646'', ''47483647'', ''00000000'',
                                    ''00000001'', ''00000002'', ''00000003''}))"
    unfolding scan.simps g by auto
  finally show ?thesis
    using False
    by (simp add: utils_verifyTOTP_def utils_verifyTOTP_try_step tenth_positive catch_false_simps)
qed

text \<open>
  The period \<open>30000000\<close> at time \<open>1709999999999\<close> with window \<open>300240\<close>, all integers below
  \<open>2 ^ 53\<close>: the current step is \<open>56\<close> and the window ends at step \<open>300296\<close>. For the last
  offset \<open>index.ts\<close> adds \<open>9007200000000000\<close> to the time; the sum \<open>9008909999999999\<close> is
  not a double and is rounded to \<open>9008910000000000\<close>, which is step \<open>300297\<close>.
\<close>

lemma low_code_value:
  fixes T :: int
  assumes "- 300184 \<le> T" "T \<le> 300296"
  shows "nat (T mod 2 ^ 32) mod 2 ^ 31 mod 10 ^ 8 \<noteq> 300297"
proof (cases "0 \<le> T")
  case True
  then have "T mod 2 ^ 32 = T" using assms by simp
  moreover have "nat T mod 2 ^ 31 = nat T" using assms True by simp
  moreover have "nat T mod 10 ^ 8 = nat T" using assms True by simp
  ultimately show ?thesis using assms by simp
next
  case False
  then have m: "T mod 2 ^ 32 = T + 2 ^ 32"
    using assms by (intro mod_pos_pos_trivial [of "T + 2 ^ 32" "2 ^ 32", unfolded mod_add_self2]) simp_all
  define n where "n = nat (T + 2 ^ 31)"
  have n: "2147183464 \<le> n" "n \<le> 2147483647" using assms False by (simp_all add: n_def)
  have "nat (T + 2 ^ 32) = n + 2 ^ 31" using assms by (simp add: n_def)
  then have "nat (T + 2 ^ 32) mod 2 ^ 31 = n mod 2 ^ 31" by simp
  also have "\<dots> = n" using n by simp
  finally have a: "nat (T mod 2 ^ 32) mod 2 ^ 31 = n" by (simp only: m)
  have "n = (n - 2100000000) + 21 * 10 ^ 8" using n by simp
  then have "n mod 10 ^ 8 = (n - 2100000000) mod 10 ^ 8" by (metis mod_mult_self1)
  also have "\<dots> = n - 2100000000" using n by simp
  finally show ?thesis using n a by simp
qed


lemma js_round_cases:
  obtains y where "js_round x = Fin y" | "js_round x = Infinity" | "js_round x = NegInfinity"
  by (cases "js_round x") simp_all

lemma js_mul_1000_neq_NaN: "v \<noteq> NaN \<Longrightarrow> js_mul v (Num 1000) \<noteq> NaN"
  by (cases v) (simp_all add: Num_def signed_infinity_def)

lemma js_add_Num_neq_NaN: "v \<noteq> NaN \<Longrightarrow> js_add (Num a) v \<noteq> NaN"
  by (cases v) (simp_all add: Num_def)

lemma floor_div_Num_neq_NaN: "v \<noteq> NaN \<Longrightarrow> m \<noteq> 0 \<Longrightarrow> floor_div v (Num m) \<noteq> NaN"
proof (cases v)
  case (Fin a)
  assume "m \<noteq> 0"
  then have "floor_div (Fin a) (Num m) = js_floor (js_round (a / of_int m))"
    by (simp add: floor_div_def Num_def)
  also have "\<dots> \<noteq> NaN" by (rule js_round_cases [of "a / of_int m"]) simp_all
  finally show ?thesis using Fin by simp
qed simp_all

lemma index_step_neq_NaN:
  assumes "js_mul (Num p) (Num 1000) = Num m" "m \<noteq> 0"
  shows "index_step now (Num p) (Num k) \<noteq> NaN"
proof -
  have "js_mul (Num k) (Num p) \<noteq> NaN" by (simp add: Num_def)
  then have "js_mul (js_mul (Num k) (Num p)) (Num 1000) \<noteq> NaN" by (rule js_mul_1000_neq_NaN)
  then have "js_add (Num now) (js_mul (js_mul (Num k) (Num p)) (Num 1000)) \<noteq> NaN"
    by (rule js_add_Num_neq_NaN)
  then show ?thesis
    unfolding index_step_def assms(1) using assms(2) by (rule floor_div_Num_neq_NaN)
qed

lemma big_ms: "js_mul (Num 30000000) (Num 1000) = Num 30000000000"
  by (simp add: js_eval)

lemma big_index_step:
  "index_step 1709999999999 (Num 30000000) (Num 300240) = Num 300297"
  by (simp add: index_step_def Num_def) (simp add: js_round_def dbl_eval floor_div_def)

lemma big_utils_step:
  assumes "- 300240 \<le> t" "t \<le> 300240"
  shows "utils_step 1709999999999 (Num 30000000) (Num t) = Num (56 + t)"
  using utils_step_exact [of 30000000 1709999999999 t] assms by simp

lemma stub_code_300297: "otp_string 300297 8 = ''00300297''"
  by (simp add: otp_string_eval)

lemma big_index_true:
  "index_verifyTOTP stub_platform 1709999999999 ''JBSWY3DPEHPK3PXP'' ''00300297'' (Num 30000000) 8
     (Num 300240) = Some True"
proof -
  let ?g = "\<lambda>t. index_generateTOTPWithT stub_platform ''JBSWY3DPEHPK3PXP''
                   (index_step 1709999999999 (Num 30000000) t) (Num 30000000) 8"
  have ok: "\<forall>k\<in>{- 300240..300240}. \<exists>c. ?g (Num k) = Inr c"
    by (simp add: stub_index_generateTOTPWithT index_step_neq_NaN [OF big_ms])
  have "?g (Num 300240) = Inr ''00300297''"
    by (simp add: big_index_step stub_index_generateTOTPWithT stub_code_300297)
  then have "\<exists>k\<in>{- 300240..300240}. ?g (Num k) = Inr ''00300297''" by (intro bexI [of _ 300240]) simp_all
  moreover have "catch_false (verify_loop ?g ''00300297'' (Num 300240) (Num (- 300240)))
      = Some (\<exists>k\<in>{- 300240..300240}. ?g (Num k) = Inr ''00300297'')"
    using ok by (rule catch_false_scan_all_ok) simp_all
  ultimately show ?thesis
    by (simp add: index_verifyTOTP_def index_verifyTOTP_try_step)
qed

lemma big_utils_false:
  "utils_verifyTOTP stub_platform 1709999999999 ''JBSWY3DPEHPK3PXP'' ''00300297'' (Num 30000000) (Num 8)
     (Num 300240) = Some False"
proof -
  let ?g = "\<lambda>t. utils_generateTOTPWithT stub_platform ''JBSWY3DPEHPK3PXP''
                   (utils_step 1709999999999 (Num 30000000) t) (Num 30000000) (Num 8)"
  have g: "?g (Num k) = Inr (otp_string (56 + word_of_int k) 8)" if "k \<in> {- 300240..300240}" for k
    using that by (simp add: big_utils_step stub_utils_generateTOTPWithT)
  have ne: "otp_string (56 + word_of_int k) 8 \<noteq> ''00300297''" if "k \<in> {- 300240..300240}" for k
  proof
    have "(56 + word_of_int k :: 32 word) = word_of_int (56 + k)" by simp
    moreover assume "otp_string (56 + word_of_int k) 8 = ''00300297''"
    ultimately have "otp_string (word_of_int (56 + k)) 8 = ''00300297''" by (simp only:)
    then have "decimal_value (otp_string (word_of_int (56 + k) :: 32 word) 8) = decimal_value ''00300297''"
      by (simp only:)
    moreover have "decimal_value ''00300297'' = 300297"
      by (simp add: decimal_value_def digit_value_def)
    ultimately have "otp_of (word_of_int (56 + k) :: 32 word) 8 = 300297"
      by (simp only: otp_string_value)
    then have "unat (word_of_int (56 + k) :: 32 word) mod 2 ^ 31 mod 10 ^ 8 = 300297"
      by (simp only: otp_of_def unat_and_mask31)
    moreover have "unat (word_of_int (56 + k) :: 32 word) = nat ((56 + k) mod 2 ^ 32)"
      using unsigned_of_int [of "56 + k", where ?'a = nat and ?'b = 32]
      by (simp only: take_bit_eq_mod) simp
    ultimately show False using low_code_value [of "56 + k"] that by simp
  qed
  have "catch_false (verify_loop ?g ''00300297'' (Num 300240) (Num (- 300240)))
      = Some (\<exists>k\<in>{- 300240..300240}. ?g (Num k) = Inr ''00300297'')"
    using g by (intro catch_false_scan_all_ok) simp_all
  also have "\<dots> = Some False" using g ne by simp
  finally show ?thesis
    by (simp add: utils_verifyTOTP_def utils_verifyTOTP_try_step)
qed

section \<open>The generators in their environment\<close>

lemma base32Decode_in_result:
  assumes "deterministic E"
  shows "fst (base32Decode_in E input variant w) =
           (case base32Decode (platform_at E e) input variant of
              None \<Rightarrow> Inl Base32DecodeFailed | Some key \<Rightarrow> Inr key)"
proof -
  have "fst (decode_call E input variant (runtime w)) = fst (decode_call E input variant e)"
    using assms by (simp add: deterministic_def)
  then show ?thesis
    by (cases "decode_call E input variant (runtime w)")
       (simp add: base32Decode_in_def platform_at_def split: option.splits)
qed

lemma generateHMAC_in_result:
  assumes "deterministic E"
  shows "fst (generateHMAC_in E data key algorithm w) = generateHMAC (platform_at E e) data key algorithm"
proof -
  have "fst (hmac_call E algorithm key data (runtime w)) = fst (hmac_call E algorithm key data e)"
    using assms by (simp add: deterministic_def)
  then show ?thesis
    by (cases "hmac_call E algorithm key data (runtime w)")
       (simp add: generateHMAC_in_def generateHMAC_def platform_at_def split: option.splits)
qed

lemma otp_padded_in_result: "otp_padded_in E tr n = otp_padded (platform_at E e) tr n"
  by (simp add: otp_padded_in_def otp_padded_def platform_at_def)

lemma fst_catch_generate: "fst (catch_generate message r) = rethrow (fst r)"
  by (cases r) (simp add: catch_generate_def rethrow_def split: sum.splits)

text \<open>
  With deterministic collaborators the result of a generator in its environment is the
  result of the generator as a function, whatever the state of the world; the clock
  enters \<open>generateTOTP\<close> and nothing enters \<open>generateTOTPWithT\<close>.
\<close>

lemma utils_generateTOTPWithT_in_result:
  assumes "deterministic E"
  shows "fst (utils_generateTOTPWithT_in E s T p d w) = utils_generateTOTPWithT (platform_at E e) s T p d"
proof -
  obtain rk w1 where k: "base32Decode_in E s ''RFC4648'' w = (rk, w1)" by (cases "base32Decode_in E s ''RFC4648'' w")
  then have rk: "rk = (case base32Decode (platform_at E e) s ''RFC4648'' of
              None \<Rightarrow> Inl Base32DecodeFailed | Some key \<Rightarrow> Inr key)"
    using base32Decode_in_result [OF assms, of s "''RFC4648''" w e] by simp
  have h: "fst (hmacSha1_in E key data w1) = hmacSha1 (platform_at E e) key data" for key data
    using generateHMAC_in_result [OF assms] by (simp add: hmacSha1_in_def hmacSha1_def)
  show ?thesis
  proof (cases "base32Decode (platform_at E e) s ''RFC4648''")
    case None
    with rk k show ?thesis
      by (simp add: utils_generateTOTPWithT_in_def utils_generateTOTPWithT_def
          utils_generateTOTPWithT_try_def fst_catch_generate)
  next
    case (Some key)
    obtain rm w2 where m: "hmacSha1_in E key (TBytes T) w1 = (rm, w2)"
      by (cases "hmacSha1_in E key (TBytes T) w1")
    with h [of key "TBytes T"] have rm: "rm = hmacSha1 (platform_at E e) key (TBytes T)" by simp
    from Some rk k m rm show ?thesis
      by (simp add: utils_generateTOTPWithT_in_def utils_generateTOTPWithT_def
          utils_generateTOTPWithT_try_def fst_catch_generate otp_padded_in_result [of E _ _ e] Let_def
          split: sum.splits)
  qed
qed

lemma index_generateTOTPWithT_in_result:
  assumes "deterministic E"
  shows "fst (index_generateTOTPWithT_in E s T p n w) = index_generateTOTPWithT (platform_at E e) s T p n"
proof -
  obtain rk w1 where k: "base32Decode_in E s ''RFC4648'' w = (rk, w1)" by (cases "base32Decode_in E s ''RFC4648'' w")
  then have rk: "rk = (case base32Decode (platform_at E e) s ''RFC4648'' of
              None \<Rightarrow> Inl Base32DecodeFailed | Some key \<Rightarrow> Inr key)"
    using base32Decode_in_result [OF assms, of s "''RFC4648''" w e] by simp
  have h: "fst (hmacSha256_in E key data w1) = hmacSha256 (platform_at E e) key data" for key data
    using generateHMAC_in_result [OF assms] by (simp add: hmacSha256_in_def hmacSha256_def)
  show ?thesis
  proof (cases "base32Decode (platform_at E e) s ''RFC4648''")
    case None
    with rk k show ?thesis
      by (simp add: index_generateTOTPWithT_in_def index_generateTOTPWithT_def
          index_generateTOTPWithT_try_def fst_catch_generate)
  next
    case (Some key)
    obtain rm w2 where m: "hmacSha256_in E key (TBytes T) w1 = (rm, w2)"
      by (cases "hmacSha256_in E key (TBytes T) w1")
    with h [of key "TBytes T"] have rm: "rm = hmacSha256 (platform_at E e) key (TBytes T)" by simp
    from Some rk k m rm show ?thesis
      by (simp add: index_generateTOTPWithT_in_def index_generateTOTPWithT_def
          index_generateTOTPWithT_try_def fst_catch_generate otp_padded_in_result [of E _ _ e] Let_def
          split: sum.splits)
  qed
qed

lemma clock_base32Decode_in: "clock (snd (base32Decode_in E input variant w)) = clock w"
  by (cases "decode_call E input variant (runtime w)")
     (simp add: base32Decode_in_def split: option.splits)

lemma clock_generateHMAC_in: "clock (snd (generateHMAC_in E data key algorithm w)) = clock w"
  by (cases "hmac_call E algorithm key data (runtime w)")
     (simp add: generateHMAC_in_def console_error_def split: option.splits)

lemma clock_catch_generate: "clock (snd (catch_generate message r)) = clock (snd r)"
  by (cases r) (simp add: catch_generate_def console_error_def split: sum.splits)

lemma clock_hmac_in:
  "clock (snd (hmacSha1_in E key data w)) = clock w"
  "clock (snd (hmacSha256_in E key data w)) = clock w"
  by (simp_all add: hmacSha1_in_def hmacSha256_in_def clock_generateHMAC_in)

text \<open>A generator writes to the console and moves the runtime; it leaves the clock alone.\<close>

lemma clock_utils_generateTOTPWithT_in:
  "clock (snd (utils_generateTOTPWithT_in E s T p d w)) = clock w"
proof -
  obtain rk w1 where k: "base32Decode_in E s ''RFC4648'' w = (rk, w1)" by (cases "base32Decode_in E s ''RFC4648'' w")
  then have c1: "clock w1 = clock w" using clock_base32Decode_in [of E s "''RFC4648''" w] by simp
  have c2: "clock w2 = clock w" if "hmacSha1_in E key (TBytes T) w1 = (r, w2)" for key r w2
    using clock_hmac_in [of E key "TBytes T" w1] that c1 by simp
  show ?thesis
    unfolding utils_generateTOTPWithT_in_def clock_catch_generate
    using k c1 c2 by (auto simp add: Let_def split: sum.splits prod.splits)
qed

lemma clock_index_generateTOTPWithT_in:
  "clock (snd (index_generateTOTPWithT_in E s T p n w)) = clock w"
proof -
  obtain rk w1 where k: "base32Decode_in E s ''RFC4648'' w = (rk, w1)" by (cases "base32Decode_in E s ''RFC4648'' w")
  then have c1: "clock w1 = clock w" using clock_base32Decode_in [of E s "''RFC4648''" w] by simp
  have c2: "clock w2 = clock w" if "hmacSha256_in E key (TBytes T) w1 = (r, w2)" for key r w2
    using clock_hmac_in [of E key "TBytes T" w1] that c1 by simp
  show ?thesis
    unfolding index_generateTOTPWithT_in_def clock_catch_generate
    using k c1 c2 by (auto simp add: Let_def split: sum.splits prod.splits)
qed

lemma utils_generateTOTP_in_result:
  assumes "deterministic E"
  shows "fst (utils_generateTOTP_in E s p d w) = utils_generateTOTP (platform_at E e) (clock w) s p d"
proof -
  obtain rk w1 where k: "base32Decode_in E s ''RFC4648'' w = (rk, w1)" by (cases "base32Decode_in E s ''RFC4648'' w")
  then have rk: "rk = (case base32Decode (platform_at E e) s ''RFC4648'' of
              None \<Rightarrow> Inl Base32DecodeFailed | Some key \<Rightarrow> Inr key)"
    using base32Decode_in_result [OF assms, of s "''RFC4648''" w e] by simp
  have c: "clock w1 = clock w" using clock_base32Decode_in [of E s "''RFC4648''" w] k by simp
  have h: "fst (hmacSha1_in E key data w1) = hmacSha1 (platform_at E e) key data" for key data
    using generateHMAC_in_result [OF assms] by (simp add: hmacSha1_in_def hmacSha1_def)
  show ?thesis
  proof (cases "base32Decode (platform_at E e) s ''RFC4648''")
    case None
    with rk k show ?thesis
      by (simp add: utils_generateTOTP_in_def utils_generateTOTP_def
          utils_generateTOTP_try_def fst_catch_generate)
  next
    case (Some key)
    let ?T = "floor_div (Num (clock w)) (js_mul p (Num 1000))"
    obtain rm w2 where m: "hmacSha1_in E key (TBytes ?T) w1 = (rm, w2)"
      by (cases "hmacSha1_in E key (TBytes ?T) w1")
    with h [of key "TBytes ?T"] have rm: "rm = hmacSha1 (platform_at E e) key (TBytes ?T)" by simp
    from Some rk k m rm c show ?thesis
      by (simp add: utils_generateTOTP_in_def utils_generateTOTP_def
          utils_generateTOTP_try_def fst_catch_generate otp_padded_in_result [of E _ _ e] Let_def
          split: sum.splits)
  qed
qed

lemma deterministic_stateless: "deterministic (stateless P)"
  by (simp add: deterministic_def stateless_def)

lemma platform_at_stateless: "platform_at (stateless P) e = P"
  by (simp add: platform_at_def stateless_def)

text \<open>
  What the clock does to \<open>generateTOTP\<close>: the same call half a minute later returns
  another code.
\<close>

lemma generateTOTP_reads_the_clock:
  "fst (utils_generateTOTP_in (stateless stub_platform) ''JBSWY3DPEHPK3PXP'' (Num 30) (Num 6)
         \<lparr>clock = 0, console = [], runtime = ()\<rparr>) = Inr ''000000''"
  "fst (utils_generateTOTP_in (stateless stub_platform) ''JBSWY3DPEHPK3PXP'' (Num 30) (Num 6)
         \<lparr>clock = 30000, console = [], runtime = ()\<rparr>) = Inr ''000001''"
  by (simp_all add: utils_generateTOTP_in_result [OF deterministic_stateless, of _ _ _ _ _ "()"]
      platform_at_stateless stub_utils_generateTOTP js_eval otp_string_eval)

text \<open>
  What a keyed hash with a state does to \<open>generateTOTPWithT\<close>: the second of two
  identical calls returns another code.
\<close>

lemma counting_not_deterministic: "\<not> deterministic counting"
proof
  assume "deterministic counting"
  then have "fst (hmac_call counting [] [] [] 0) = fst (hmac_call counting [] [] [] 1)"
    unfolding deterministic_def by blast
  then show False by (simp add: counting_def)
qed

lemma counting_calls_differ:
  "fst (utils_generateTOTPWithT_in counting ''JBSWY3DPEHPK3PXP'' (Num 7) (Num 30) (Num 6)
         \<lparr>clock = 0, console = [], runtime = 0\<rparr>) = Inr ''000000''"
  "fst (utils_generateTOTPWithT_in counting ''JBSWY3DPEHPK3PXP'' (Num 7) (Num 30) (Num 6)
         (snd (utils_generateTOTPWithT_in counting ''JBSWY3DPEHPK3PXP'' (Num 7) (Num 30) (Num 6)
                \<lparr>clock = 0, console = [], runtime = 0\<rparr>))) = Inr ''777216''"
  by (simp_all add: utils_generateTOTPWithT_in_def base32Decode_in_def hmacSha1_in_def
      generateHMAC_in_def catch_generate_def otp_padded_in_def counting_def isNaN_def
      offset_of_def js_at_def truncate_loop_def upt_4 truncate_step_def replicate_numeral_eval
      otp_string_eval)


section \<open>Claims\<close>

subsection \<open>C1: verification never raises\<close>




subsection \<open>C2: the bound check before truncation\<close>

text \<open>
  C2. \<open>utils.ts\<close> checks \<open>offset + 3 < hmacArray.length\<close> before it reads the four
  bytes and throws otherwise (lemmas \<open>utils_bound_check\<close> and \<open>utils_reads_in_bounds\<close>);
  \<open>index.ts\<close> reads them unchecked. With a keyed hash that returns the three bytes
  \<open>12 34 01\<close>, the offset is 1 and \<open>offset + 4 > 3\<close>: both generators of \<open>index.ts\<close>
  read two bytes past the end as zero and return the code of \<open>0x34010000\<close>, where
  \<open>generateTOTPWithT\<close> of \<open>utils.ts\<close> throws \<open>HMAC array too small for truncation\<close>.
\<close>

theorem index_truncation_without_bound_check:
  "subtle_hmac short_mac_platform ''SHA-256'' [72, 101, 108, 108, 111, 33, 222, 173, 190, 239]
      (TBytes (Num 1)) = Some [18, 52, 1] \<and>
   offset_of [18, 52, 1] = 1 \<and>
   length [18, 52, 1 :: byte] < offset_of [18, 52, 1] + 4 \<and>
   index_generateTOTPWithT short_mac_platform ''JBSWY3DPEHPK3PXP'' (Num 1) (Num 30) 6
     = Inr ''480768'' \<and>
   index_generateTOTP short_mac_platform 1700000000000 ''JBSWY3DPEHPK3PXP'' (Num 30) 6
     = Inr ''480768'' \<and>
   utils_generateTOTPWithT_try short_mac_platform ''JBSWY3DPEHPK3PXP'' (Num 1) (Num 30) (Num 6)
     = Inl HMACArrayTooSmall"
proof -
  have o: "offset_of [18, 52, 1] = 1"
    by (simp add: offset_of_def js_at_def)
  have t: "truncate_loop [18, 52, 1] (Suc 0) = 0x34010000"
    by (simp add: truncate_loop_def upt_4 truncate_step_def js_at_def)
  have c: "otp_string 0x34010000 6 = ''480768''"
    by (simp add: otp_string_eval)
  show ?thesis
    by (simp add: o t c js_eval short_mac_platform_def stub_platform_def
        index_generateTOTPWithT_def index_generateTOTPWithT_try_def
        index_generateTOTP_def index_generateTOTP_try_def
        utils_generateTOTPWithT_try_def rethrow_def isNaN_def
        hmacSha1_def hmacSha256_def generateHMAC_def otp_padded_def)
qed


subsection \<open>C3: the acceptance window\<close>

text \<open>
  C3. \<open>verifyTOTP\<close> of \<open>utils.ts\<close> computes the current step once and checks the steps
  \<open>currentT + t\<close> (lemma \<open>utils_verifyTOTP_window\<close>). \<open>verifyTOTP\<close> of \<open>index.ts\<close> computes
  the step anew for every offset, from a sum and products that are rounded, and so
  checks steps that are not \<open>currentT + t\<close>. At time \<open>1709999999999\<close> with period
  \<open>30000000\<close> and window \<open>300240\<close> the current step is \<open>56\<close>; \<open>index.ts\<close> computes the
  step \<open>300297\<close> for the offset \<open>300240\<close> and accepts the code of that step, which lies
  outside the window and which \<open>utils.ts\<close> rejects. At time \<open>0\<close> with period \<open>0.1\<close> and
  window \<open>3\<close>, \<open>index.ts\<close> computes the step \<open>-4\<close> for the offset \<open>-3\<close>: it accepts the
  code of step \<open>-4\<close> and rejects the code of step \<open>-3\<close>, where \<open>utils.ts\<close> does the
  opposite.
\<close>

theorem index_verifyTOTP_checks_steps_outside_the_window:
  "utils_step 1709999999999 (Num 30000000) (Num 300240) = Num 300296 \<and>
   index_step 1709999999999 (Num 30000000) (Num 300240) = Num 300297 \<and>
   index_generateTOTPWithT stub_platform ''JBSWY3DPEHPK3PXP'' (Num 300297) (Num 30000000) 8
     = Inr ''00300297'' \<and>
   index_verifyTOTP stub_platform 1709999999999 ''JBSWY3DPEHPK3PXP'' ''00300297'' (Num 30000000) 8
     (Num 300240) = Some True \<and>
   utils_verifyTOTP stub_platform 1709999999999 ''JBSWY3DPEHPK3PXP'' ''00300297'' (Num 30000000) (Num 8)
     (Num 300240) = Some False \<and>
   utils_step 0 (Fin (to_double (1 / 10))) (Num (- 3)) = Num (- 3) \<and>
   index_step 0 (Fin (to_double (1 / 10))) (Num (- 3)) = Num (- 4) \<and>
   index_verifyTOTP stub_platform 0 ''JBSWY3DPEHPK3PXP'' ''47483644'' (Fin (to_double (1 / 10))) 8 (Num 3)
     = Some True \<and>
   utils_verifyTOTP stub_platform 0 ''JBSWY3DPEHPK3PXP'' ''47483644'' (Fin (to_double (1 / 10))) (Num 8) (Num 3)
     = Some False \<and>
   index_verifyTOTP stub_platform 0 ''JBSWY3DPEHPK3PXP'' ''47483645'' (Fin (to_double (1 / 10))) 8 (Num 3)
     = Some False \<and>
   utils_verifyTOTP stub_platform 0 ''JBSWY3DPEHPK3PXP'' ''47483645'' (Fin (to_double (1 / 10))) (Num 8) (Num 3)
     = Some True"
proof -
  have "utils_step 1709999999999 (Num 30000000) (Num 300240) = Num 300296"
    using big_utils_step [of 300240] by simp
  moreover have "index_generateTOTPWithT stub_platform ''JBSWY3DPEHPK3PXP'' (Num 300297) (Num 30000000) 8
     = Inr ''00300297''"
    by (simp add: stub_index_generateTOTPWithT stub_code_300297)
  moreover have "utils_step 0 (Fin (to_double (1 / 10))) (Num (- 3)) = Num (- 3)"
    by (simp add: utils_steps_tenth)
  ultimately show ?thesis
    using big_index_step big_index_true big_utils_false index_steps_tenth(1)
    by (simp add: small_index small_utils)
qed


subsection \<open>C4: dynamic truncation\<close>

text \<open>
  C4. For a MAC that holds four bytes from the offset given by the low nibble of its last
  byte, the integer the generators compute with 32-bit shifts is the truncation of
  RFC 4226 as the specification words it (\<open>spec_truncate\<close>): big-endian unsigned 32-bit
  value of those four bytes, masked with \<open>0x7FFFFFFF\<close>, modulo \<open>10 ^ digits\<close>; and the
  code each of the four generators returns for that MAC is this integer in decimal,
  padded with zeros.
\<close>

theorem generated_code_is_dynamic_truncation:
  assumes "(unat (last mac) AND 15) + 4 \<le> length mac"
  shows "otp_of (truncate_loop mac (offset_of mac)) n = spec_truncate mac n \<and>
    (base32Decode P s ''RFC4648'' = Some key \<and>
     subtle_hmac P ''SHA-1'' key (TBytes T) = Some mac \<and>
     utils_generateTOTPWithT P s T p d = Inr code \<longrightarrow>
       code = padStart (toString (spec_truncate mac (digits_nat d))) (digits_nat d) CHR ''0'') \<and>
    (base32Decode P s ''RFC4648'' = Some key \<and>
     subtle_hmac P ''SHA-1'' key (TBytes (floor_div (Num now) (js_mul p (Num 1000)))) = Some mac \<and>
     utils_generateTOTP P now s p d = Inr code \<longrightarrow>
       code = padStart (toString (spec_truncate mac (digits_nat d))) (digits_nat d) CHR ''0'') \<and>
    (base32Decode P s ''RFC4648'' = Some key \<and>
     subtle_hmac P ''SHA-256'' key (TBytes T) = Some mac \<and>
     index_generateTOTPWithT P s T p n = Inr code \<longrightarrow>
       code = padStart (toString (spec_truncate mac n)) n CHR ''0'') \<and>
    (base32Decode P s ''RFC4648'' = Some key \<and>
     subtle_hmac P ''SHA-256'' key (TBytes (floor_div (Num now) (js_mul p (Num 1000)))) = Some mac \<and>
     index_generateTOTP P now s p n = Inr code \<longrightarrow>
       code = padStart (toString (spec_truncate mac n)) n CHR ''0'')"
proof (intro conjI impI)
  show "otp_of (truncate_loop mac (offset_of mac)) n = spec_truncate mac n"
    using otp_string_spec(2) [OF assms] by (rule otp_of_spec)
qed (auto simp add: utils_generateTOTPWithT_Inr utils_generateTOTP_Inr
      index_generateTOTPWithT_Inr index_generateTOTP_Inr otp_string_spec(1) [OF assms])

text \<open>
  The worked example of RFC 4226 (offset 10, bytes \<open>50 ef 7f 19\<close>, code 872921), and
  the four generators on the stub platform at the counter \<open>0x12345678\<close>.
\<close>

theorem generated_code_is_dynamic_truncation_witness:
  "(unat (last rfc4226_example_mac) AND 15) + 4 \<le> length rfc4226_example_mac \<and>
   otp_of (truncate_loop rfc4226_example_mac (offset_of rfc4226_example_mac)) 6 = 872921 \<and>
   (unat (last stub_example_mac) AND 15) + 4 \<le> length stub_example_mac \<and>
   base32Decode stub_platform ''JBSWY3DPEHPK3PXP'' ''RFC4648''
     = Some [72, 101, 108, 108, 111, 33, 222, 173, 190, 239] \<and>
   subtle_hmac stub_platform ''SHA-1'' [72, 101, 108, 108, 111, 33, 222, 173, 190, 239]
     (TBytes (Num 0x12345678)) = Some stub_example_mac \<and>
   utils_generateTOTPWithT stub_platform ''JBSWY3DPEHPK3PXP'' (Num 0x12345678) (Num 30) (Num 6)
     = Inr ''419896'' \<and>
   utils_generateTOTP stub_platform 9162596880000 ''JBSWY3DPEHPK3PXP'' (Num 30) (Num 6)
     = Inr ''419896'' \<and>
   index_generateTOTPWithT stub_platform ''JBSWY3DPEHPK3PXP'' (Num 0x12345678) (Num 30) 6
     = Inr ''419896'' \<and>
   index_generateTOTP stub_platform 9162596880000 ''JBSWY3DPEHPK3PXP'' (Num 30) 6
     = Inr ''419896'' \<and>
   ''419896'' = padStart (toString (spec_truncate stub_example_mac 6)) 6 CHR ''0''"
proof -
  let ?key = "[72, 101, 108, 108, 111, 33, 222, 173, 190, 239] :: byte list"
  have h: "(unat (last rfc4226_example_mac) AND 15) + 4 \<le> length rfc4226_example_mac"
    by (simp add: rfc4226_example_mac_def nat_and_15)
  have r: "otp_of (truncate_loop rfc4226_example_mac (offset_of rfc4226_example_mac)) 6 = 872921"
    using generated_code_is_dynamic_truncation [OF h, of 6] by (simp add: rfc4226_example)
  have h': "(unat (last stub_example_mac) AND 15) + 4 \<le> length stub_example_mac"
    by (simp add: stub_example_mac_def nat_and_15)
  have T: "floor_div (Num 9162596880000) (js_mul (Num 30) (Num 1000)) = Num 0x12345678"
    by (simp add: js_eval)
  have k: "base32Decode stub_platform ''JBSWY3DPEHPK3PXP'' ''RFC4648'' = Some ?key"
    by (rule stub_decode)
  have m: "subtle_hmac stub_platform a ?key (TBytes (Num 0x12345678)) = Some stub_example_mac" for a
    by (simp add: stub_hmac TBytes_closed stub_example_mac_def replicate_numeral_eval)
  have m': "subtle_hmac stub_platform a ?key
              (TBytes (floor_div (Num 9162596880000) (js_mul (Num 30) (Num 1000)))) = Some stub_example_mac" for a
    unfolding T by (rule m)
  have u: "utils_generateTOTPWithT stub_platform ''JBSWY3DPEHPK3PXP'' (Num 0x12345678) (Num 30) (Num 6)
             = Inr ''419896''"
    by (simp add: stub_utils_generateTOTPWithT otp_string_eval)
  have u': "utils_generateTOTP stub_platform 9162596880000 ''JBSWY3DPEHPK3PXP'' (Num 30) (Num 6)
             = Inr ''419896''"
    by (simp add: stub_utils_generateTOTP T otp_string_eval)
  have i: "index_generateTOTPWithT stub_platform ''JBSWY3DPEHPK3PXP'' (Num 0x12345678) (Num 30) 6
             = Inr ''419896''"
    by (simp add: stub_index_generateTOTPWithT otp_string_eval)
  have i': "index_generateTOTP stub_platform 9162596880000 ''JBSWY3DPEHPK3PXP'' (Num 30) 6
             = Inr ''419896''"
    by (simp add: stub_index_generateTOTP T otp_string_eval)
  have c: "''419896'' = padStart (toString (spec_truncate stub_example_mac 6)) 6 CHR ''0''"
    using generated_code_is_dynamic_truncation
      [OF h', where P = stub_platform and s = "''JBSWY3DPEHPK3PXP''" and key = ?key
         and T = "Num 0x12345678" and p = "Num 30" and d = "Num 6" and n = 6
         and now = 9162596880000 and code = "''419896''"]
      k m [of "''SHA-1''"] m' [of "''SHA-1''"] m [of "''SHA-256''"] m' [of "''SHA-256''"] u u' i i'
    by simp
  from h r h' k m [of "''SHA-1''"] u u' i i' c show ?thesis by (intro conjI)
qed


subsection \<open>C5: the format of a code\<close>

text \<open>
  C5. For a secret that is not empty and that the decoder accepts, with a keyed hash that
  returns a MAC for the decoded key and every counter (of 20 bytes for HMAC-SHA-1), and
  for a positive integer \<open>digits = d\<close> within the engine's string length, each of the
  four generators returns a code, and the code is a string of exactly \<open>d\<close> decimal
  digits, zero-padded on the left, whose value is below \<open>10 ^ d\<close>. The generators of
  \<open>utils.ts\<close> also ask for a period that is not \<open>period <= 0\<close>, and \<open>generateTOTPWithT\<close>
  for a step that is not \<open>NaN\<close>. (A code that is returned has this format also when the
  secret or the hash is otherwise: lemma \<open>returned_code_format\<close>.)
\<close>

theorem generated_code_format:
  assumes "s \<noteq> []"
    and "base32Decode P s ''RFC4648'' = Some key"
    and "\<forall>T. \<exists>mac. subtle_hmac P ''SHA-1'' key (TBytes T) = Some mac \<and> length mac = 20"
    and "\<forall>T. \<exists>mac. subtle_hmac P ''SHA-256'' key (TBytes T) = Some mac"
    and "0 < d" "d \<le> max_string_length P"
  shows "(\<not> js_le p (Num 0) \<longrightarrow>
            (\<exists>code. utils_generateTOTP P now s p (Num (int d)) = Inr code \<and> spec_code code d)) \<and>
         (\<not> js_le p (Num 0) \<and> T \<noteq> NaN \<longrightarrow>
            (\<exists>code. utils_generateTOTPWithT P s T p (Num (int d)) = Inr code \<and> spec_code code d)) \<and>
         (\<exists>code. index_generateTOTP P now s p d = Inr code \<and> spec_code code d) \<and>
         (T \<noteq> NaN \<longrightarrow>
            (\<exists>code. index_generateTOTPWithT P s T p d = Inr code \<and> spec_code code d))"
proof -
  have sha1: "\<exists>mac. subtle_hmac P ''SHA-1'' key (TBytes U) = Some mac \<and> offset_of mac + 4 \<le> length mac" for U
  proof -
    from assms(3) obtain mac where m: "subtle_hmac P ''SHA-1'' key (TBytes U) = Some mac" "length mac = 20"
      by blast
    then have "offset_of mac + 4 \<le> length mac" using offset_of_less [of mac] by simp
    with m(1) show ?thesis by blast
  qed
  have sha256: "\<exists>mac. subtle_hmac P ''SHA-256'' key (TBytes U) = Some mac" for U
    using assms(4) by blast
  have d: "\<exists>k>0. Num (int d) = Num k" using assms(5) by auto
  have code: "spec_code (otp_string tr d) d" for tr
    using assms(5) by (rule otp_string_spec_code)
  show ?thesis
  proof (intro conjI impI)
    assume "\<not> js_le p (Num 0)"
    then show "\<exists>code. utils_generateTOTP P now s p (Num (int d)) = Inr code \<and> spec_code code d"
      using sha1 [of "floor_div (Num now) (js_mul p (Num 1000))"] assms(1,2,6) d code
      unfolding utils_generateTOTP_Inr by auto
  next
    assume "\<not> js_le p (Num 0) \<and> T \<noteq> NaN"
    then show "\<exists>code. utils_generateTOTPWithT P s T p (Num (int d)) = Inr code \<and> spec_code code d"
      using sha1 [of T] assms(1,2,6) d code
      unfolding utils_generateTOTPWithT_Inr by auto
  next
    show "\<exists>code. index_generateTOTP P now s p d = Inr code \<and> spec_code code d"
      using sha256 [of "floor_div (Num now) (js_mul p (Num 1000))"] assms(1,2,6) code
      unfolding index_generateTOTP_Inr by auto
  next
    assume "T \<noteq> NaN"
    then show "\<exists>code. index_generateTOTPWithT P s T p d = Inr code \<and> spec_code code d"
      using sha256 [of T] assms(1,2,6) code
      unfolding index_generateTOTPWithT_Inr by auto
  qed
qed

text \<open>
  The four generators on the stub platform, at the time \<open>1700000000000\<close> (step
  \<open>56666666\<close>) and at step \<open>7\<close>.
\<close>

theorem generated_code_format_witness:
  "''JBSWY3DPEHPK3PXP'' \<noteq> [] \<and>
   base32Decode stub_platform ''JBSWY3DPEHPK3PXP'' ''RFC4648''
     = Some [72, 101, 108, 108, 111, 33, 222, 173, 190, 239] \<and>
   (0::nat) < 6 \<and> 6 \<le> max_string_length stub_platform \<and>
   \<not> js_le (Num 30) (Num 0) \<and> Num 7 \<noteq> NaN \<and>
   utils_generateTOTP stub_platform 1700000000000 ''JBSWY3DPEHPK3PXP'' (Num 30) (Num 6) = Inr ''666666'' \<and>
   utils_generateTOTPWithT stub_platform ''JBSWY3DPEHPK3PXP'' (Num 7) (Num 30) (Num 6) = Inr ''000007'' \<and>
   index_generateTOTP stub_platform 1700000000000 ''JBSWY3DPEHPK3PXP'' (Num 30) 6 = Inr ''666666'' \<and>
   index_generateTOTPWithT stub_platform ''JBSWY3DPEHPK3PXP'' (Num 7) (Num 30) 6 = Inr ''000007'' \<and>
   spec_code ''666666'' 6 \<and> spec_code ''000007'' 6"
proof -
  let ?key = "[72, 101, 108, 108, 111, 33, 222, 173, 190, 239] :: byte list"
  have s: "''JBSWY3DPEHPK3PXP'' \<noteq> []" by simp
  have k: "base32Decode stub_platform ''JBSWY3DPEHPK3PXP'' ''RFC4648'' = Some ?key"
    by (rule stub_decode)
  have h1: "\<forall>T. \<exists>mac. subtle_hmac stub_platform ''SHA-1'' ?key (TBytes T) = Some mac \<and> length mac = 20"
    by (simp add: stub_hmac length_TBytes)
  have h2: "\<forall>T. \<exists>mac. subtle_hmac stub_platform ''SHA-256'' ?key (TBytes T) = Some mac"
    by (simp add: stub_hmac)
  have d: "(0::nat) < 6" "6 \<le> max_string_length stub_platform"
    by (simp_all add: stub_limit)
  have T: "floor_div (Num 1700000000000) (js_mul (Num 30) (Num 1000)) = Num 56666666"
    by (simp add: js_eval)
  have a: "utils_generateTOTP stub_platform 1700000000000 ''JBSWY3DPEHPK3PXP'' (Num 30) (Num 6) = Inr ''666666''"
    by (simp add: stub_utils_generateTOTP T otp_string_eval)
  have b: "utils_generateTOTPWithT stub_platform ''JBSWY3DPEHPK3PXP'' (Num 7) (Num 30) (Num 6) = Inr ''000007''"
    by (simp add: stub_utils_generateTOTPWithT otp_string_eval)
  have c: "index_generateTOTP stub_platform 1700000000000 ''JBSWY3DPEHPK3PXP'' (Num 30) 6 = Inr ''666666''"
    by (simp add: stub_index_generateTOTP T otp_string_eval)
  have e: "index_generateTOTPWithT stub_platform ''JBSWY3DPEHPK3PXP'' (Num 7) (Num 30) 6 = Inr ''000007''"
    by (simp add: stub_index_generateTOTPWithT otp_string_eval)
  have "spec_code ''666666'' 6 \<and> spec_code ''000007'' 6"
    using generated_code_format [OF s k h1 h2 d, of "Num 30" 1700000000000 "Num 7"] a b
    by simp
  with s k d a b c e show ?thesis by simp
qed


subsection \<open>C6: the counter encoding is not a 64-bit encoding\<close>

text \<open>
  C6. \<open>tempT & 0xFF\<close> and \<open>tempT >>> 8\<close> work on 32 bits: after four rounds nothing
  is left of the counter. The counter \<open>2 ^ 32\<close> is encoded as eight zero bytes, where
  its unsigned 64-bit big-endian encoding is \<open>00 00 00 01 00 00 00 00\<close>, and its code
  is the code of counter 0. Below \<open>2 ^ 32\<close> the encoding is the big-endian one (lemma
  \<open>TBytes_spec_counter_bytes\<close>).
\<close>

theorem counter_encoding_drops_high_bytes:
  "TBytes (Num 4294967296) = [0, 0, 0, 0, 0, 0, 0, 0] \<and>
   spec_counter_bytes 4294967296 = [0, 0, 0, 1, 0, 0, 0, 0] \<and>
   utils_generateTOTPWithT stub_platform ''JBSWY3DPEHPK3PXP'' (Num 4294967296) (Num 30) (Num 6)
     = Inr ''000000'' \<and>
   utils_generateTOTPWithT stub_platform ''JBSWY3DPEHPK3PXP'' (Num 0) (Num 30) (Num 6)
     = Inr ''000000'' \<and>
   index_generateTOTPWithT stub_platform ''JBSWY3DPEHPK3PXP'' (Num 4294967296) (Num 30) 6
     = Inr ''000000''"
  by (simp add: TBytes_closed spec_counter_bytes_def upt_rec
      stub_utils_generateTOTPWithT stub_index_generateTOTPWithT otp_string_eval)


subsection \<open>C7: validation in the generators\<close>

text \<open>
  C7. The generators of \<open>utils.ts\<close> reject an empty secret, a period that is an integer
  below 1 and digits that are not a positive integer (lemmas
  \<open>utils_rejects_empty_secret\<close>, \<open>utils_rejects_period\<close>, \<open>utils_rejects_digits\<close>,
  \<open>utils_rejects_empty_key\<close>; each error leaves the function as
  \<open>Failed to generate TOTP\<close>, lemma \<open>utils_error_is_rethrown\<close>). The generators of
  \<open>index.ts\<close> validate neither period nor digits: they return a code for period 0, for
  period -30 and for digits 0. In \<open>utils.ts\<close> the test \<open>period <= 0\<close> is false for
  \<open>NaN\<close>, and a code is returned for that period too.
\<close>

theorem generation_accepts_invalid_period_and_digits:
  "index_generateTOTPWithT stub_platform ''JBSWY3DPEHPK3PXP'' (Num 7) (Num 0) 6 = Inr ''000007'' \<and>
   index_generateTOTP stub_platform 1700000000000 ''JBSWY3DPEHPK3PXP'' (Num 0) 6 = Inr ''000000'' \<and>
   index_generateTOTP stub_platform 1700000000000 ''JBSWY3DPEHPK3PXP'' (Num (- 30)) 6 = Inr ''816981'' \<and>
   index_generateTOTP stub_platform 1700000000000 ''JBSWY3DPEHPK3PXP'' (Num 30) 0 = Inr ''0'' \<and>
   utils_generateTOTP stub_platform 1700000000000 ''JBSWY3DPEHPK3PXP'' NaN (Num 6) = Inr ''000000'' \<and>
   utils_generateTOTPWithT stub_platform ''JBSWY3DPEHPK3PXP'' (Num 7) NaN (Num 6) = Inr ''000007''"
  by (simp add: stub_utils_generateTOTPWithT stub_index_generateTOTPWithT
      stub_index_generateTOTP stub_utils_generateTOTP js_eval signed_infinity_def otp_string_eval)


subsection \<open>C8: the two derivations of a window step\<close>

text \<open>
  C8. The two window-step computations are not always equivalent: at the current time
  \<open>0\<close>, which is on a step boundary of every period, with the period \<open>0.1\<close> (a step of
  \<open>0.1 * 1000 = 100\<close> milliseconds exactly) and the offset \<open>-3\<close>,
  \<open>Math.floor(currentTime / (period * 1000)) + t\<close> of \<open>utils.ts\<close> is the step \<open>-3\<close>, and
  \<open>Math.floor((currentTime + t * period * 1000) / (period * 1000))\<close> of \<open>index.ts\<close> is the
  step \<open>-4\<close>: the product \<open>-3 * 0.1 * 1000\<close> is rounded to a double just below \<open>-300\<close>
  before the division and the floor.
\<close>

theorem window_step_forms_differ:
  "dbl_mul (to_double (1 / 10)) 1000 = 100 \<and>
   utils_step_double 0 (to_double (1 / 10)) (- 3) = Some (- 3) \<and>
   index_step_double 0 (to_double (1 / 10)) (- 3) = Some (- 4)"
  using double_tenth_times_1000 index_step_double_example utils_step_double_example
  by (simp add: double_tenth)


subsection \<open>C9: determinism\<close>

text \<open>
  C9. With a decoder and a keyed hash that are deterministic, the code or the error that
  \<open>generateTOTPWithT\<close> of either file returns does not depend on the state of the world
  in which it is called: not on the clock, not on the console, not on the state of the
  runtime. So a second call with the same arguments, made in the world that the first
  call left behind, returns what the first call returned; and a call leaves the clock
  alone. The result is the one of the generator as a function of its arguments. (The
  assumption is needed, lemma \<open>counting_calls_differ\<close>, and \<open>generateTOTP\<close>, which reads
  the clock, has no such property, lemma \<open>generateTOTP_reads_the_clock\<close>.)
\<close>

theorem generateTOTPWithT_deterministic:
  assumes "deterministic E"
  shows "fst (utils_generateTOTPWithT_in E s T p d w) = fst (utils_generateTOTPWithT_in E s T p d w') \<and>
         fst (utils_generateTOTPWithT_in E s T p d (snd (utils_generateTOTPWithT_in E s T p d w)))
           = fst (utils_generateTOTPWithT_in E s T p d w) \<and>
         fst (utils_generateTOTPWithT_in E s T p d w) = utils_generateTOTPWithT (platform_at E e) s T p d \<and>
         fst (index_generateTOTPWithT_in E s T p n w) = fst (index_generateTOTPWithT_in E s T p n w') \<and>
         fst (index_generateTOTPWithT_in E s T p n (snd (index_generateTOTPWithT_in E s T p n w)))
           = fst (index_generateTOTPWithT_in E s T p n w) \<and>
         fst (index_generateTOTPWithT_in E s T p n w) = index_generateTOTPWithT (platform_at E e) s T p n \<and>
         clock (snd (utils_generateTOTPWithT_in E s T p d w)) = clock w \<and>
         clock (snd (index_generateTOTPWithT_in E s T p n w)) = clock w"
  by (simp add: utils_generateTOTPWithT_in_result [OF assms, of _ _ _ _ _ e]
      index_generateTOTPWithT_in_result [OF assms, of _ _ _ _ _ e]
      clock_utils_generateTOTPWithT_in clock_index_generateTOTPWithT_in)

text \<open>
  The stub platform: step 7 in a fresh world, and again in the world the first call
  left behind with the clock advanced by a day and a line on the console.
\<close>

theorem generateTOTPWithT_deterministic_witness:
  "deterministic (stateless stub_platform :: unit collaborators) \<and>
   fst (utils_generateTOTPWithT_in (stateless stub_platform) ''JBSWY3DPEHPK3PXP'' (Num 7) (Num 30) (Num 6)
         \<lparr>clock = 0, console = [], runtime = ()\<rparr>) = Inr ''000007'' \<and>
   fst (utils_generateTOTPWithT_in (stateless stub_platform) ''JBSWY3DPEHPK3PXP'' (Num 7) (Num 30) (Num 6)
         \<lparr>clock = 86400000, console = [''a line''], runtime = ()\<rparr>) = Inr ''000007'' \<and>
   fst (index_generateTOTPWithT_in (stateless stub_platform) ''JBSWY3DPEHPK3PXP'' (Num 7) (Num 30) 6
         \<lparr>clock = 0, console = [], runtime = ()\<rparr>) = Inr ''000007'' \<and>
   fst (index_generateTOTPWithT_in (stateless stub_platform) ''JBSWY3DPEHPK3PXP'' (Num 7) (Num 30) 6
         \<lparr>clock = 86400000, console = [''a line''], runtime = ()\<rparr>) = Inr ''000007''"
proof -
  have d: "deterministic (stateless stub_platform :: unit collaborators)"
    by (rule deterministic_stateless)
  have u: "utils_generateTOTPWithT stub_platform ''JBSWY3DPEHPK3PXP'' (Num 7) (Num 30) (Num 6) = Inr ''000007''"
    by (simp add: stub_utils_generateTOTPWithT otp_string_eval)
  have i: "index_generateTOTPWithT stub_platform ''JBSWY3DPEHPK3PXP'' (Num 7) (Num 30) 6 = Inr ''000007''"
    by (simp add: stub_index_generateTOTPWithT otp_string_eval)
  note inst = generateTOTPWithT_deterministic
    [OF d, where s = "''JBSWY3DPEHPK3PXP''" and T = "Num 7" and p = "Num 30" and d = "Num 6" and n = 6
       and e = "()"]
  show ?thesis
    using d u i
      inst [of "\<lparr>clock = 0, console = [], runtime = ()\<rparr>"]
      inst [of "\<lparr>clock = 86400000, console = [''a line''], runtime = ()\<rparr>"]
    by (simp add: platform_at_stateless)
qed


subsection \<open>C10: the counter keeps the low 32 bits\<close>

text \<open>
  C10. The counter encoding is eight bytes whose first four are zero, for every step, and
  two integer steps that are congruent modulo \<open>2 ^ 32\<close> give the same result of
  \<open>generateTOTPWithT\<close> in both files.
\<close>

theorem counter_keeps_low_32_bits:
  "length (TBytes T) = 8 \<and> take 4 (TBytes T) = [0, 0, 0, 0] \<and>
   (T1 mod 2 ^ 32 = T2 mod 2 ^ 32 \<longrightarrow>
      utils_generateTOTPWithT P s (Num T1) p d = utils_generateTOTPWithT P s (Num T2) p d \<and>
      index_generateTOTPWithT P s (Num T1) p n = index_generateTOTPWithT P s (Num T2) p n)"
proof (intro conjI impI)
  show "length (TBytes T) = 8" by (simp add: TBytes_closed)
  show "take 4 (TBytes T) = [0, 0, 0, 0]" by (simp add: TBytes_closed)
next
  assume "T1 mod 2 ^ 32 = T2 mod 2 ^ 32"
  then have b: "TBytes (Num T1) = TBytes (Num T2)"
    by (intro TBytes_cong ToUint32_cong)
  show "utils_generateTOTPWithT P s (Num T1) p d = utils_generateTOTPWithT P s (Num T2) p d"
    using b by (intro utils_generateTOTPWithT_cong_T) simp_all
  show "index_generateTOTPWithT P s (Num T1) p n = index_generateTOTPWithT P s (Num T2) p n"
    using b by (intro index_generateTOTPWithT_cong_T) simp_all
qed

theorem counter_keeps_low_32_bits_witness:
  "(1::int) mod 2 ^ 32 = 4294967297 mod 2 ^ 32 \<and>
   utils_generateTOTPWithT stub_platform ''JBSWY3DPEHPK3PXP'' (Num 1) (Num 30) (Num 6) = Inr ''000001'' \<and>
   utils_generateTOTPWithT stub_platform ''JBSWY3DPEHPK3PXP'' (Num 4294967297) (Num 30) (Num 6) = Inr ''000001'' \<and>
   index_generateTOTPWithT stub_platform ''JBSWY3DPEHPK3PXP'' (Num 1) (Num 30) 6 = Inr ''000001'' \<and>
   index_generateTOTPWithT stub_platform ''JBSWY3DPEHPK3PXP'' (Num 4294967297) (Num 30) 6 = Inr ''000001''"
proof -
  have m: "(1::int) mod 2 ^ 32 = 4294967297 mod 2 ^ 32" by simp
  have u: "utils_generateTOTPWithT stub_platform ''JBSWY3DPEHPK3PXP'' (Num 1) (Num 30) (Num 6) = Inr ''000001''"
    by (simp add: stub_utils_generateTOTPWithT otp_string_eval)
  have i: "index_generateTOTPWithT stub_platform ''JBSWY3DPEHPK3PXP'' (Num 1) (Num 30) 6 = Inr ''000001''"
    by (simp add: stub_index_generateTOTPWithT otp_string_eval)
  have e:
    "utils_generateTOTPWithT stub_platform ''JBSWY3DPEHPK3PXP'' (Num 1) (Num 30) (Num 6)
       = utils_generateTOTPWithT stub_platform ''JBSWY3DPEHPK3PXP'' (Num 4294967297) (Num 30) (Num 6)"
    "index_generateTOTPWithT stub_platform ''JBSWY3DPEHPK3PXP'' (Num 1) (Num 30) 6
       = index_generateTOTPWithT stub_platform ''JBSWY3DPEHPK3PXP'' (Num 4294967297) (Num 30) 6"
    using counter_keeps_low_32_bits
      [where ?T1.0 = 1 and ?T2.0 = 4294967297 and P = stub_platform and s = "''JBSWY3DPEHPK3PXP''"
         and p = "Num 30" and d = "Num 6" and n = 6] m
    by blast+
  from e(1) u have u': "utils_generateTOTPWithT stub_platform ''JBSWY3DPEHPK3PXP'' (Num 4294967297) (Num 30) (Num 6) = Inr ''000001''"
    by simp
  from e(2) i have i': "index_generateTOTPWithT stub_platform ''JBSWY3DPEHPK3PXP'' (Num 4294967297) (Num 30) 6 = Inr ''000001''"
    by simp
  from m u u' i i' show ?thesis by (intro conjI)
qed


end
